theory Spec2Isabelle
  imports Complex_Main "HOL-Library.Multiset"
begin

unbundle bit_operations_syntax

section \<open>Route creation for OpenRails: the model\<close>

text \<open>
  A shallow embedding of \<^verbatim>\<open>routecreation/geometry.py\<close>, \<^verbatim>\<open>routecreation/railgraphs.py\<close>
  and \<^verbatim>\<open>routecreation/openrails_data.py\<close>. Python objects are addressed by a reference
  (a natural number standing for the object's identity), Python integers are \<open>int\<close>,
  Python floats are modelled as \<open>real\<close> (exact arithmetic, no rounding), and every
  exception the source can raise is a value of \<open>error\<close>.
\<close>

type_synonym ref = nat

datatype error =
  AssertionError
  | ZeroDivisionError
  | ValueError
  | IndexError
  | KeyError
  | AttributeError

subsection \<open>The indexer of \<^verbatim>\<open>openrails_data.py\<close>\<close>

text \<open>
  \<^verbatim>\<open>_Indexer\<close> keeps \<^verbatim>\<open>next_index\<close> and the dictionary \<^verbatim>\<open>indices\<close>. The registered
  items (segments, edges, nodes, scenery objects) define neither \<^verbatim>\<open>__eq__\<close> nor
  \<^verbatim>\<open>__hash__\<close>, so the dictionary is keyed by identity. A Python dictionary iterates in
  insertion order: it is an association list here, new keys appended at the end.
  \<^verbatim>\<open>item.attrs[self.key] = idx\<close> writes into the item's attribute table; the tables
  of all items are the function \<open>attrs\<close>.
\<close>

record indexer =
  key :: string
  next_index :: int
  indices :: "(ref \<times> int) list"

type_synonym attrs = "ref \<Rightarrow> string \<rightharpoonup> int"

definition Indexer :: "string \<Rightarrow> int \<Rightarrow> indexer" where
  "Indexer k first_index = \<lparr>key = k, next_index = first_index, indices = []\<rparr>"

definition get_or_add :: "indexer \<Rightarrow> attrs \<Rightarrow> ref \<Rightarrow> int \<times> indexer \<times> attrs" where
  "get_or_add ix ats item =
     (case map_of (indices ix) item of
        Some i \<Rightarrow> (i, ix, ats)
      | None \<Rightarrow>
          (let idx = next_index ix
           in (idx,
               ix\<lparr>next_index := idx + 1, indices := indices ix @ [(item, idx)]\<rparr>,
               ats(item := (ats item)(key ix \<mapsto> idx)))))"

text \<open>\<^verbatim>\<open>register(*items)\<close> calls \<^verbatim>\<open>get_or_add\<close> on each item and drops the ids.\<close>

fun register :: "indexer \<Rightarrow> attrs \<Rightarrow> ref list \<Rightarrow> indexer \<times> attrs" where
  "register ix ats [] = (ix, ats)"
| "register ix ats (item # items) =
     (case get_or_add ix ats item of (_, ix', ats') \<Rightarrow> register ix' ats' items)"

text \<open>The same loop, keeping the id each call returns: the ids of a run of registrations.\<close>

fun get_or_add_seq :: "indexer \<Rightarrow> attrs \<Rightarrow> ref list \<Rightarrow> int list \<times> indexer \<times> attrs" where
  "get_or_add_seq ix ats [] = ([], ix, ats)"
| "get_or_add_seq ix ats (item # items) =
     (case get_or_add ix ats item of
        (i, ix', ats') \<Rightarrow>
          (case get_or_add_seq ix' ats' items of (ids, ix'', ats'') \<Rightarrow> (i # ids, ix'', ats'')))"

subsection \<open>Section indices and tile file names of \<^verbatim>\<open>ORWriter\<close>\<close>

text \<open>
  \<^verbatim>\<open>_get_section_index\<close> looks the segment up in \<^verbatim>\<open>self._section_indices\<close> (which
  registers it when it is new) and reads the segment's radius. The segment is given by
  its identity and its radius.
\<close>

definition get_section_index :: "indexer \<Rightarrow> attrs \<Rightarrow> ref \<Rightarrow> real \<Rightarrow> int \<times> indexer \<times> attrs" where
  "get_section_index section_indices ats segment radius =
     (case get_or_add section_indices ats segment of
        (idx, ix', ats') \<Rightarrow>
          (if radius \<le> 0 then (2 * idx - 40000, ix', ats')
           else (2 * idx - 40000 + 1, ix', ats')))"

text \<open>
  The index in a tile's file name. Python's integers are unbounded two's complement
  numbers, as \<open>int\<close> with \<open>NOT\<close>, \<open>AND\<close>, \<open>OR\<close>, \<open>XOR\<close> and \<open>push_bit\<close> is.
\<close>

definition tile_idx :: "int \<Rightarrow> int \<Rightarrow> int" where
  "tile_idx tile_x tile_z =
     (let x = tile_x + push_bit 14 1;
          z = tile_z + push_bit 14 1;
          x = x XOR z;
          x = NOT x;
          z = NOT z;
          t = fold (\<lambda>i t. t OR push_bit i ((x AND push_bit i 1) OR push_bit 1 (z AND push_bit i 1)))
                [0..<15] 0
      in push_bit 2 t)"

text \<open>
  The file name is \<^verbatim>\<open>os.path.join(self.directory, 'tiles', f'-{tile_idx:08x}')\<close> with the
  suffixes \<^verbatim>\<open>.t\<close> and \<^verbatim>\<open>_y.raw\<close>. \<open>format_08x\<close> is the format \<^verbatim>\<open>08x\<close>: lower-case
  hexadecimal digits, a minus sign for a negative number, zeros after the sign up to a
  width of 8. \<open>path_join\<close> is \<^verbatim>\<open>posixpath.join\<close> on two components.
\<close>

definition hex_digit :: "nat \<Rightarrow> char" where
  "hex_digit d = (if d < 10 then char_of (48 + d) else char_of (87 + d))"

fun to_hex :: "nat \<Rightarrow> string" where
  "to_hex n = (if n < 16 then [hex_digit n] else to_hex (n div 16) @ [hex_digit (n mod 16)])"

declare to_hex.simps [simp del]

definition format_08x :: "int \<Rightarrow> string" where
  "format_08x n =
     (let sign = (if n < 0 then ''-'' else '''');
          digits = to_hex (nat \<bar>n\<bar>)
      in sign @ replicate (8 - length sign - length digits) CHR ''0'' @ digits)"

definition path_join :: "string \<Rightarrow> string \<Rightarrow> string" where
  "path_join a b =
     (if b \<noteq> [] \<and> hd b = CHR ''/'' then b
      else if a = [] \<or> last a = CHR ''/'' then a @ b
      else a @ ''/'' @ b)"

definition tile_file_names :: "string \<Rightarrow> int \<Rightarrow> int \<Rightarrow> string \<times> string" where
  "tile_file_names directory tile_x tile_z =
     (let basename = path_join (path_join directory ''tiles'') (''-'' @ format_08x (tile_idx tile_x tile_z))
      in (basename @ ''.t'', basename @ ''_y.raw''))"

text \<open>Reading a hexadecimal string back (used in the proofs only).\<close>

definition digit_val :: "char \<Rightarrow> nat" where
  "digit_val c = (if of_char c < (58::nat) then of_char c - 48 else of_char c - 87)"

definition hex_val :: "string \<Rightarrow> nat" where
  "hex_val cs = foldl (\<lambda>a c. 16 * a + digit_val c) 0 cs"

subsection \<open>The writer \<^verbatim>\<open>STFOutput\<close>\<close>

text \<open>
  A Python string is a list of code points; \<open>string\<close> lists 8-bit characters, so the
  model covers contents in the range U+0000 to U+00FF (the writer's own output is ASCII).
  \<^verbatim>\<open>str.splitlines\<close> ends a line at \<^verbatim>\<open>\n\<close>, \<^verbatim>\<open>\r\<close>, \<^verbatim>\<open>\r\n\<close>, \<^verbatim>\<open>\v\<close>, \<^verbatim>\<open>\f\<close>,
  \<^verbatim>\<open>\x1c\<close>, \<^verbatim>\<open>\x1d\<close>, \<^verbatim>\<open>\x1e\<close> and \<^verbatim>\<open>\x85\<close> in that range; \<^verbatim>\<open>str.lstrip\<close> removes
  the leading characters for which \<^verbatim>\<open>str.isspace\<close> holds.
\<close>

definition is_linebreak :: "char \<Rightarrow> bool" where
  "is_linebreak c \<longleftrightarrow> of_char c \<in> {10, 11, 12, 13, 28, 29, 30, 133 :: nat}"

definition isspace :: "char \<Rightarrow> bool" where
  "isspace c \<longleftrightarrow> of_char c \<in> {9, 10, 11, 12, 13, 28, 29, 30, 31, 32, 133, 160 :: nat}"

fun splitlines :: "string \<Rightarrow> string list" where
  "splitlines [] = []"
| "splitlines [c] = (if is_linebreak c then [[]] else [[c]])"
| "splitlines (c # d # cs) =
     (if c = CHR 0x0D \<and> d = CHR 0x0A then [] # splitlines cs
      else if is_linebreak c then [] # splitlines (d # cs)
      else (case splitlines (d # cs) of [] \<Rightarrow> [[c]] | l # ls \<Rightarrow> (c # l) # ls))"

definition lstrip :: "string \<Rightarrow> string" where
  "lstrip line = dropWhile isspace line"

definition startswith :: "string \<Rightarrow> char \<Rightarrow> bool" where
  "startswith line c = (case line of [] \<Rightarrow> False | d # _ \<Rightarrow> d = c)"

definition count :: "string \<Rightarrow> char \<Rightarrow> int" where
  "count line c = int (count_list line c)"

text \<open>
  Of the writer's fields, \<^verbatim>\<open>write\<close> reads and changes \<^verbatim>\<open>_parentheses\<close> and \<^verbatim>\<open>_file\<close>
  (\<open>None\<close> before \<^verbatim>\<open>__enter__\<close> has opened the file, else the text written so far).
\<close>

record stf_output =
  parentheses :: int
  stf_file :: "string option"

text \<open>
  The loop of \<^verbatim>\<open>write\<close> over the lines. A failed \<^verbatim>\<open>assert\<close> leaves the balance as the
  lines before it have set it, so the result carries the balance next to the error.
  \<open>stf_write\<close> is \<^verbatim>\<open>STFOutput.write\<close>.
\<close>

fun write_lines :: "int \<Rightarrow> string \<Rightarrow> string list \<Rightarrow> error option \<times> int \<times> string" where
  "write_lines p indented_lines [] = (None, p, indented_lines)"
| "write_lines p indented_lines (line # lines) =
     (let line = lstrip line;
          indent = p;
          indent = (if startswith line CHR '')'' then indent - 1 else indent)
      in if \<not> 0 \<le> indent then (Some AssertionError, p, indented_lines)
         else write_lines (p + (count line CHR ''('' - count line CHR '')''))
                (indented_lines @ replicate (nat indent) CHR 0x09 @ line @ [CHR 0x0A]) lines)"

definition stf_write :: "stf_output \<Rightarrow> string \<Rightarrow> error option \<times> stf_output" where
  "stf_write f content =
     (case write_lines (parentheses f) [] (splitlines content) of
        (Some e, p, _) \<Rightarrow> (Some e, f\<lparr>parentheses := p\<rparr>)
      | (None, p, indented_lines) \<Rightarrow>
          (case stf_file f of
             None \<Rightarrow> (Some AttributeError, f\<lparr>parentheses := p\<rparr>)
           | Some written \<Rightarrow> (None, f\<lparr>parentheses := p, stf_file := Some (written @ indented_lines)\<rparr>)))"

subsection \<open>Vectors, poses and angles of \<^verbatim>\<open>geometry.py\<close>\<close>

text \<open>
  \<^verbatim>\<open>Vector\<close> has the fields \<^verbatim>\<open>x\<close> and \<^verbatim>\<open>y\<close> (the selectors \<open>vx\<close> and \<open>vy\<close>). The
  operators of the class are \<open>v_add\<close> (\<^verbatim>\<open>+\<close>), \<open>v_sub\<close> (\<^verbatim>\<open>-\<close>), \<open>v_dot\<close> and
  \<open>v_scale\<close> (\<^verbatim>\<open>*\<close> with a vector and with a number), \<open>v_truediv\<close> (\<^verbatim>\<open>/\<close>), \<open>v_abs\<close>
  (\<^verbatim>\<open>abs\<close>), \<open>v_neg\<close> and \<open>v_matmul\<close> (\<^verbatim>\<open>@\<close>). A float division by zero raises
  \<^verbatim>\<open>ZeroDivisionError\<close>; \<^verbatim>\<open>math.sqrt\<close> and \<^verbatim>\<open>math.acos\<close> raise \<^verbatim>\<open>ValueError\<close>
  outside their domains.
\<close>

datatype vector = Vector (vx: real) (vy: real)

definition v_sub :: "vector \<Rightarrow> vector \<Rightarrow> vector" where
  "v_sub a b = Vector (vx a - vx b) (vy a - vy b)"

definition v_add :: "vector \<Rightarrow> vector \<Rightarrow> vector" where
  "v_add a b = Vector (vx a + vx b) (vy a + vy b)"

definition v_dot :: "vector \<Rightarrow> vector \<Rightarrow> real" where
  "v_dot a b = vx a * vx b + vy a * vy b"

definition v_scale :: "vector \<Rightarrow> real \<Rightarrow> vector" where
  "v_scale a k = Vector (vx a * k) (vy a * k)"

definition v_truediv :: "vector \<Rightarrow> real \<Rightarrow> error + vector" where
  "v_truediv a k = (if k = 0 then Inl ZeroDivisionError else Inr (Vector (vx a / k) (vy a / k)))"

definition v_abs :: "vector \<Rightarrow> real" where
  "v_abs a = sqrt ((vx a)\<^sup>2 + (vy a)\<^sup>2)"

text \<open>
  \<^verbatim>\<open>math.atan2(y, x)\<close> on the reals (a real number has no signed zero, so
  \<^verbatim>\<open>atan2(0.0, -0.0)\<close> is not distinguished from \<^verbatim>\<open>atan2(0.0, 0.0)\<close>).
\<close>

definition atan2 :: "real \<Rightarrow> real \<Rightarrow> real" where
  "atan2 b a =
     (if 0 < a then arctan (b / a)
      else if a < 0 \<and> 0 \<le> b then arctan (b / a) + pi
      else if a < 0 then arctan (b / a) - pi
      else if 0 < b then pi / 2
      else if b < 0 then - pi / 2
      else 0)"

definition alpha :: "vector \<Rightarrow> real" where
  "alpha a = atan2 (vy a) (vx a)"

definition ortho :: "vector \<Rightarrow> vector" where
  "ortho a = Vector (- vy a) (vx a)"

definition v_norm :: "vector \<Rightarrow> error + vector" where
  "v_norm a =
     (let len = v_abs a
      in if len = 0 then Inl ZeroDivisionError else Inr (Vector (vx a / len) (vy a / len)))"

definition v_neg :: "vector \<Rightarrow> vector" where
  "v_neg a = Vector (- vx a) (- vy a)"

definition v_matmul :: "vector \<Rightarrow> vector \<Rightarrow> real" where
  "v_matmul a b = vx a * vy b - vy a * vx b"

definition polar :: "real \<Rightarrow> real \<Rightarrow> vector" where
  "polar a len = Vector (cos a * len) (sin a * len)"

text \<open>
  Python's \<^verbatim>\<open>%\<close> on floats with a positive divisor: the result lies in \<open>[0, b)\<close>.
\<close>

definition py_mod :: "real \<Rightarrow> real \<Rightarrow> real" where
  "py_mod a b = a - b * of_int \<lfloor>a / b\<rfloor>"

text \<open>
  A \<^verbatim>\<open>Pose\<close> has the fields \<^verbatim>\<open>pos\<close> and \<^verbatim>\<open>direction\<close>; its constructor \<open>Pose\<close> reduces
  the direction modulo \<open>2 * pi\<close>. \<open>RawPose\<close> is the object with its fields as they are.
  The methods \<^verbatim>\<open>to_global\<close> and \<^verbatim>\<open>to_local\<close> are modelled on a \<^verbatim>\<open>Pose\<close> argument.
\<close>

datatype pose = RawPose (pos: vector) (direction: real)

definition Pose :: "vector \<Rightarrow> real \<Rightarrow> pose" where
  "Pose p d = RawPose p (py_mod d (2 * pi))"

definition reverse :: "pose \<Rightarrow> pose" where
  "reverse q = Pose (pos q) (direction q + pi)"

definition pose_copy :: "pose \<Rightarrow> pose" where
  "pose_copy q = Pose (pos q) (direction q)"

definition pose_to_global :: "pose \<Rightarrow> pose \<Rightarrow> pose" where
  "pose_to_global q other =
     (let p = pos other;
          vx' = polar (direction q) 1;
          vy' = ortho vx';
          p = v_add (v_add (pos q) (v_scale vx' (vx p))) (v_scale vy' (vy p))
      in Pose p (direction q + direction other))"

definition pose_to_local :: "pose \<Rightarrow> pose \<Rightarrow> pose" where
  "pose_to_local q other =
     (let p = pos other;
          vx' = polar (direction q) 1;
          vy' = ortho vx';
          p = v_sub p (pos q);
          p = Vector (v_dot p vx') (v_dot p vy')
      in Pose p (direction other - direction q))"

definition angle_between :: "real \<Rightarrow> real \<Rightarrow> real" where
  "angle_between a b = py_mod (b - a + pi) (2 * pi) - pi"

subsection \<open>Bi-arc interpolation\<close>

text \<open>
  This subsection has \<^verbatim>\<open>biarc_interpolation\<close> in exact real arithmetic, the next one on
  doubles. The result is the tuple \<^verbatim>\<open>(r1, theta1, r2, theta2)\<close>. In the branch for parallel
  tangents with a perpendicular chord the source returns the points \<^verbatim>\<open>c1\<close> and \<^verbatim>\<open>c2\<close>
  in the places of the radii, so a radius slot holds a number or a vector.
\<close>

datatype arc_radius = Radius real | Centre vector

text \<open>
  \<open>calculate_arc\<close> is the local function of \<^verbatim>\<open>biarc_interpolation\<close>; the join point
  \<^verbatim>\<open>pm\<close> and the offset \<^verbatim>\<open>d\<close> it reads from the enclosing scope are parameters.
  \<open>biarc_arcs\<close> is the part of \<^verbatim>\<open>biarc_interpolation\<close> after \<^verbatim>\<open>d\<close> has been computed.
\<close>

definition calculate_arc :: "vector \<Rightarrow> real \<Rightarrow> vector \<Rightarrow> vector \<Rightarrow> error + real \<times> real" where
  "calculate_arc pm d p t' =
     (let n = ortho t';
          den = 2 * v_dot n (v_sub pm p)
      in if den = 0 then Inl ZeroDivisionError
         else
           let s = v_dot (v_sub pm p) (v_sub pm p) / den;
               c = v_add p (v_scale n s);
               r = \<bar>s\<bar>
           in (case v_truediv (v_sub p c) r of
                 Inl e \<Rightarrow> Inl e
               | Inr op \<Rightarrow>
                   (case v_truediv (v_sub pm c) r of
                      Inl e \<Rightarrow> Inl e
                    | Inr om \<Rightarrow>
                        if v_dot op om < - 1 \<or> 1 < v_dot op om then Inl ValueError
                        else
                          let theta = arccos (v_dot op om);
                              theta = (if d \<le> 0 then theta - 2 * pi else theta);
                              theta = (if v_matmul op om \<le> 0 then - theta else theta)
                          in Inr (r, theta))))"

definition biarc_arcs ::
  "vector \<Rightarrow> vector \<Rightarrow> vector \<Rightarrow> vector \<Rightarrow> real \<Rightarrow> error + arc_radius \<times> real \<times> arc_radius \<times> real" where
  "biarc_arcs p1 t1 p2 t2 d =
     (let pm = v_scale (v_add (v_add p1 p2) (v_scale (v_sub t1 t2) d)) 0.5
      in case calculate_arc pm d p1 t1 of
           Inl e \<Rightarrow> Inl e
         | Inr (r1, theta1) \<Rightarrow>
             (case calculate_arc pm d p2 t2 of
                Inl e \<Rightarrow> Inl e
              | Inr (r2, theta2) \<Rightarrow> Inr (Radius r1, theta1, Radius r2, theta2)))"

definition biarc_interpolation ::
  "vector \<Rightarrow> vector \<Rightarrow> vector \<Rightarrow> vector \<Rightarrow> error + arc_radius \<times> real \<times> arc_radius \<times> real" where
  "biarc_interpolation p1 t1 p2 t2 =
     (let v = v_sub p2 p1;
          t = v_add t1 t2;
          vt = v_dot v t;
          denominator = 2 * (1 - v_dot t1 t2)
      in if denominator = 0 then
           (if vt = 0 then
              (let c1 = v_add p1 (v_scale v 0.25);
                   c2 = v_add p1 (v_scale v 0.75)
               in if v_matmul v t2 < 0 then Inr (Centre c1, pi, Centre c2, - pi)
                  else Inr (Centre c1, - pi, Centre c2, pi))
            else biarc_arcs p1 t1 p2 t2 (0.5 * v_dot v v / vt))
         else if vt\<^sup>2 + 2 * (1 - v_dot t1 t2) * v_dot v v < 0 then Inl ValueError
         else biarc_arcs p1 t1 p2 t2
                ((- vt + sqrt (vt\<^sup>2 + 2 * (1 - v_dot t1 t2) * v_dot v v)) / denominator))"

subsection \<open>Bi-arc interpolation in floating point\<close>

text \<open>
  A Python \<^verbatim>\<open>float\<close> is an IEEE 754 double. \<open>fl x\<close> is the double nearest to the real
  number \<open>x\<close>, a tie going to the even significand: \<open>x\<close> is scaled by a power of two
  to a number \<open>q\<close> with \<open>2 ^ 52 \<le> \<bar>q\<bar> < 2 ^ 53\<close>, \<open>q\<close> is rounded to an integer and the
  integer is scaled back. Sums, differences, products, quotients and \<^verbatim>\<open>math.sqrt\<close> of
  doubles are \<open>fl\<close> of the exact result. The exponent range of a double is not modelled
  (no overflow, no subnormal numbers), and \<^verbatim>\<open>math.pi\<close> and the value of \<^verbatim>\<open>math.acos\<close> are
  taken exact, with an error below \<open>2 / 10 ^ 16\<close> of what the C library returns; an angle
  in the result is that real number.
\<close>

definition fl :: "real \<Rightarrow> real" where
  "fl x =
     (if x = 0 then 0
      else
        let e = \<lfloor>log 2 \<bar>x\<bar>\<rfloor>;
            u = 2 powr (of_int e - 52);
            q = x / u;
            n = \<lfloor>q\<rfloor>
        in (if q - of_int n < 1 / 2 \<or> (q - of_int n = 1 / 2 \<and> even n) then of_int n else of_int n + 1) * u)"

text \<open>The methods of \<^verbatim>\<open>Vector\<close> on doubles.\<close>

definition v_sub_float :: "vector \<Rightarrow> vector \<Rightarrow> vector" where
  "v_sub_float a b = Vector (fl (vx a - vx b)) (fl (vy a - vy b))"

definition v_add_float :: "vector \<Rightarrow> vector \<Rightarrow> vector" where
  "v_add_float a b = Vector (fl (vx a + vx b)) (fl (vy a + vy b))"

definition v_dot_float :: "vector \<Rightarrow> vector \<Rightarrow> real" where
  "v_dot_float a b = fl (fl (vx a * vx b) + fl (vy a * vy b))"

definition v_scale_float :: "vector \<Rightarrow> real \<Rightarrow> vector" where
  "v_scale_float a k = Vector (fl (vx a * k)) (fl (vy a * k))"

definition v_truediv_float :: "vector \<Rightarrow> real \<Rightarrow> error + vector" where
  "v_truediv_float a k =
     (if k = 0 then Inl ZeroDivisionError else Inr (Vector (fl (vx a / k)) (fl (vy a / k))))"

definition v_matmul_float :: "vector \<Rightarrow> vector \<Rightarrow> real" where
  "v_matmul_float a b = fl (fl (vx a * vy b) - fl (vy a * vx b))"

text \<open>
  \<^verbatim>\<open>biarc_interpolation\<close> and its local function \<^verbatim>\<open>calculate_arc\<close> on doubles, statement
  by statement as above.
\<close>

definition calculate_arc_float :: "vector \<Rightarrow> real \<Rightarrow> vector \<Rightarrow> vector \<Rightarrow> error + real \<times> real" where
  "calculate_arc_float pm d p t' =
     (let n = ortho t';
          den = fl (2 * v_dot_float n (v_sub_float pm p))
      in if den = 0 then Inl ZeroDivisionError
         else
           let s = fl (v_dot_float (v_sub_float pm p) (v_sub_float pm p) / den);
               c = v_add_float p (v_scale_float n s);
               r = \<bar>s\<bar>
           in (case v_truediv_float (v_sub_float p c) r of
                 Inl e \<Rightarrow> Inl e
               | Inr op \<Rightarrow>
                   (case v_truediv_float (v_sub_float pm c) r of
                      Inl e \<Rightarrow> Inl e
                    | Inr om \<Rightarrow>
                        if v_dot_float op om < - 1 \<or> 1 < v_dot_float op om then Inl ValueError
                        else
                          let theta = arccos (v_dot_float op om);
                              theta = (if d \<le> 0 then theta - 2 * pi else theta);
                              theta = (if v_matmul_float op om \<le> 0 then - theta else theta)
                          in Inr (r, theta))))"

definition biarc_arcs_float ::
  "vector \<Rightarrow> vector \<Rightarrow> vector \<Rightarrow> vector \<Rightarrow> real \<Rightarrow> error + arc_radius \<times> real \<times> arc_radius \<times> real" where
  "biarc_arcs_float p1 t1 p2 t2 d =
     (let pm = v_scale_float (v_add_float (v_add_float p1 p2) (v_scale_float (v_sub_float t1 t2) d)) 0.5
      in case calculate_arc_float pm d p1 t1 of
           Inl e \<Rightarrow> Inl e
         | Inr (r1, theta1) \<Rightarrow>
             (case calculate_arc_float pm d p2 t2 of
                Inl e \<Rightarrow> Inl e
              | Inr (r2, theta2) \<Rightarrow> Inr (Radius r1, theta1, Radius r2, theta2)))"

definition biarc_interpolation_float ::
  "vector \<Rightarrow> vector \<Rightarrow> vector \<Rightarrow> vector \<Rightarrow> error + arc_radius \<times> real \<times> arc_radius \<times> real" where
  "biarc_interpolation_float p1 t1 p2 t2 =
     (let v = v_sub_float p2 p1;
          t = v_add_float t1 t2;
          vt = v_dot_float v t;
          denominator = fl (2 * fl (1 - v_dot_float t1 t2))
      in if denominator = 0 then
           (if vt = 0 then
              (let c1 = v_add_float p1 (v_scale_float v 0.25);
                   c2 = v_add_float p1 (v_scale_float v 0.75)
               in if v_matmul_float v t2 < 0 then Inr (Centre c1, pi, Centre c2, - pi)
                  else Inr (Centre c1, - pi, Centre c2, pi))
            else biarc_arcs_float p1 t1 p2 t2 (fl (fl (0.5 * v_dot_float v v) / vt)))
         else
           let radicand = fl (fl (vt * vt) + fl (fl (2 * fl (1 - v_dot_float t1 t2)) * v_dot_float v v))
           in if radicand < 0 then Inl ValueError
              else biarc_arcs_float p1 t1 p2 t2 (fl (fl (- vt + fl (sqrt radicand)) / denominator)))"

subsection \<open>The rail graph of \<^verbatim>\<open>railgraphs.py\<close>: objects and store\<close>

text \<open>
  A \<^verbatim>\<open>Graph\<close> with its nodes, edges and scenery objects is a store: every \<^verbatim>\<open>Node\<close>,
  \<^verbatim>\<open>Edge\<close> and \<^verbatim>\<open>SceneryObject\<close> is a reference into a table of its class, and the
  lists of the source (\<^verbatim>\<open>Node.incoming\<close>, \<^verbatim>\<open>Node.outgoing\<close>, \<^verbatim>\<open>Edge.scenery_objects\<close>,
  \<^verbatim>\<open>Graph.nodes\<close>, \<^verbatim>\<open>Graph.edges\<close>) are lists of references. \<open>next_ref\<close> is the next
  unused reference. The store holds one \<^verbatim>\<open>Graph\<close>; the field \<^verbatim>\<open>graph\<close> of a node or an
  edge says whether the object belongs to it (\<open>True\<close>) or to no graph (\<^verbatim>\<open>None\<close>).

  Poses, vectors and edge segments are values, with one exception: the \<^verbatim>\<open>Vector\<close> that
  the pose of a scenery object holds as \<^verbatim>\<open>pos\<close>. \<^verbatim>\<open>Edge.flip\<close> and
  \<^verbatim>\<open>Graph.contract_edges\<close> assign to the \<^verbatim>\<open>x\<close> and \<^verbatim>\<open>y\<close> of that \<^verbatim>\<open>Vector\<close> in place
  (no other statement of \<^verbatim>\<open>railgraphs.py\<close> or \<^verbatim>\<open>geometry.py\<close> assigns to a field of a
  \<^verbatim>\<open>Vector\<close> after its construction), so these vectors live in a table of their own, \<open>vec_heap\<close>, and two
  scenery objects can hold the same one. The \<^verbatim>\<open>direction\<close> of a \<^verbatim>\<open>Pose\<close> is assigned by
  the constructor only, and \<^verbatim>\<open>Pose.reverse\<close> builds a new \<^verbatim>\<open>Pose\<close> around the same
  \<^verbatim>\<open>Vector\<close>: an object whose pose is replaced by its reverse keeps its vector and has a
  direction of its own from then on, also when it shared its \<^verbatim>\<open>Pose\<close> before. A scenery
  object is therefore the reference of its vector, its direction and the edge it is
  positioned relative to. The model assumes that no node and no edge segment holds a
  \<^verbatim>\<open>Vector\<close> that a scenery object holds, and that no two edges share one
  \<^verbatim>\<open>EdgeSegment\<close> object.
  An \<^verbatim>\<open>End\<close> is the pair of its edge and its side: each edge holds its two \<^verbatim>\<open>End\<close>
  objects (\<^verbatim>\<open>source_end\<close>, \<^verbatim>\<open>target_end\<close>) for its whole life, and \<^verbatim>\<open>End\<close> has no
  \<^verbatim>\<open>__eq__\<close>, so equal pairs are the same object.
\<close>

record edge_segment =
  seg_start :: pose
  seg_length :: real
  seg_radius :: real

datatype EdgeEnd = SOURCE | TARGET

datatype End = End (end_edge: ref) (end_side: EdgeEnd)

record node =
  node_pose :: pose
  incoming :: "ref list"
  outgoing :: "ref list"
  node_s :: real
  node_graph :: bool

record edge =
  source :: "ref option"
  target :: "ref option"
  segments :: "edge_segment list"
  edge_scenery_objects :: "ref list"
  edge_graph :: bool

record scenery_object =
  obj_pos :: ref
  obj_direction :: real
  relative_to :: "ref option"

record graph =
  node_heap :: "ref \<Rightarrow> node"
  edge_heap :: "ref \<Rightarrow> edge"
  obj_heap :: "ref \<Rightarrow> scenery_object"
  vec_heap :: "ref \<Rightarrow> vector"
  next_ref :: ref
  nodes :: "ref list"
  edges :: "ref list"
  scenery_objects :: "ref list"

definition upd_node :: "ref \<Rightarrow> (node \<Rightarrow> node) \<Rightarrow> graph \<Rightarrow> graph" where
  "upd_node n f g = g\<lparr>node_heap := (node_heap g)(n := f (node_heap g n))\<rparr>"

definition upd_edge :: "ref \<Rightarrow> (edge \<Rightarrow> edge) \<Rightarrow> graph \<Rightarrow> graph" where
  "upd_edge e f g = g\<lparr>edge_heap := (edge_heap g)(e := f (edge_heap g e))\<rparr>"

definition upd_obj :: "ref \<Rightarrow> (scenery_object \<Rightarrow> scenery_object) \<Rightarrow> graph \<Rightarrow> graph" where
  "upd_obj obj f g = g\<lparr>obj_heap := (obj_heap g)(obj := f (obj_heap g obj))\<rparr>"

definition upd_vec :: "ref \<Rightarrow> (vector \<Rightarrow> vector) \<Rightarrow> graph \<Rightarrow> graph" where
  "upd_vec v f g = g\<lparr>vec_heap := (vec_heap g)(v := f (vec_heap g v))\<rparr>"

text \<open>\<^verbatim>\<open>obj.pose\<close>, read as a value.\<close>

definition obj_pose :: "graph \<Rightarrow> ref \<Rightarrow> pose" where
  "obj_pose g obj = RawPose (vec_heap g (obj_pos (obj_heap g obj))) (obj_direction (obj_heap g obj))"

text \<open>\<^verbatim>\<open>list.remove(x)\<close> removes the first occurrence and raises \<^verbatim>\<open>ValueError\<close> without one.\<close>

definition list_remove :: "'a \<Rightarrow> 'a list \<Rightarrow> error + 'a list" where
  "list_remove a as = (if a \<in> set as then Inr (remove1 a as) else Inl ValueError)"

text \<open>Sequencing of calls that may raise.\<close>

definition ebind :: "error + 'a \<Rightarrow> ('a \<Rightarrow> error + 'b) \<Rightarrow> error + 'b" where
  "ebind m f = (case m of Inl e \<Rightarrow> Inl e | Inr a \<Rightarrow> f a)"

fun emap :: "('a \<Rightarrow> error + 'b) \<Rightarrow> 'a list \<Rightarrow> error + 'b list" where
  "emap f [] = Inr []"
| "emap f (a # as) = ebind (f a) (\<lambda>b. ebind (emap f as) (\<lambda>bs. Inr (b # bs)))"

subsection \<open>Edge segments\<close>

definition straight :: "edge_segment \<Rightarrow> bool" where
  "straight seg \<longleftrightarrow> seg_radius seg = 0"

definition center :: "edge_segment \<Rightarrow> vector" where
  "center seg =
     (let a = direction (seg_start seg) - 0.5 * pi
      in v_add (pos (seg_start seg)) (polar a (seg_radius seg)))"

definition seg_travel :: "edge_segment \<Rightarrow> real \<Rightarrow> pose" where
  "seg_travel seg s =
     (if straight seg then
        Pose (v_add (pos (seg_start seg)) (polar (direction (seg_start seg)) s)) (direction (seg_start seg))
      else
        let c = center seg;
            angle = s / seg_radius seg;
            beta = direction (seg_start seg) + 0.5 * pi - angle
        in Pose (v_add c (polar beta (seg_radius seg))) (direction (seg_start seg) - angle))"

definition seg_end :: "edge_segment \<Rightarrow> pose" where
  "seg_end seg = reverse (seg_travel seg (seg_length seg))"

definition seg_flip :: "edge_segment \<Rightarrow> edge_segment" where
  "seg_flip seg = seg\<lparr>seg_start := seg_end seg, seg_radius := - seg_radius seg\<rparr>"

definition seg_to_global :: "edge_segment \<Rightarrow> pose \<Rightarrow> real \<Rightarrow> bool \<Rightarrow> bool \<Rightarrow> pose option" where
  "seg_to_global seg other offset extend_before extend_after =
     (let x = vx (pos other) - offset;
          y = vy (pos other)
      in if x < 0 \<and> \<not> extend_before then None
         else if x > seg_length seg \<and> \<not> extend_after then None
         else
           let q = seg_travel seg x;
               vy' = ortho (polar (direction q) 1);
               p = v_add (pos q) (v_scale vy' y)
           in Some (Pose p (direction other + direction q)))"

subsection \<open>Edges\<close>

definition edge_start :: "graph \<Rightarrow> ref \<Rightarrow> error + pose" where
  "edge_start g e =
     (case segments (edge_heap g e) of
        seg # _ \<Rightarrow> Inr (seg_start seg)
      | [] \<Rightarrow>
          (case (source (edge_heap g e), target (edge_heap g e)) of
             (Some s, Some t) \<Rightarrow>
               (let p = pos (node_pose (node_heap g s));
                    q = pos (node_pose (node_heap g t))
                in Inr (Pose p (alpha (v_sub q p))))
           | _ \<Rightarrow> Inl AttributeError))"

definition edge_end :: "graph \<Rightarrow> ref \<Rightarrow> error + pose" where
  "edge_end g e =
     (if segments (edge_heap g e) \<noteq> [] then Inr (seg_end (last (segments (edge_heap g e))))
      else
        (case (source (edge_heap g e), target (edge_heap g e)) of
           (Some s, Some t) \<Rightarrow>
             (let p = pos (node_pose (node_heap g t));
                  q = pos (node_pose (node_heap g s))
              in Inr (Pose p (alpha (v_sub q p))))
         | _ \<Rightarrow> Inl AttributeError))"

definition edge_length :: "graph \<Rightarrow> ref \<Rightarrow> error + real" where
  "edge_length g e =
     (if segments (edge_heap g e) \<noteq> [] then Inr (sum_list (map seg_length (segments (edge_heap g e))))
      else
        (case (source (edge_heap g e), target (edge_heap g e)) of
           (Some s, Some t) \<Rightarrow>
             Inr (v_abs (v_sub (pos (node_pose (node_heap g s))) (pos (node_pose (node_heap g t)))))
         | _ \<Rightarrow> Inl AttributeError))"

text \<open>
  \<^verbatim>\<open>x and x.outgoing.remove(self)\<close> and \<^verbatim>\<open>x and x.outgoing.append(self)\<close>: nothing
  happens when \<^verbatim>\<open>x\<close> is \<^verbatim>\<open>None\<close>.
\<close>

definition outgoing_remove :: "ref option \<Rightarrow> ref \<Rightarrow> graph \<Rightarrow> error + graph" where
  "outgoing_remove n e g =
     (case n of
        None \<Rightarrow> Inr g
      | Some m \<Rightarrow> ebind (list_remove e (outgoing (node_heap g m)))
                   (\<lambda>l. Inr (upd_node m (\<lambda>nd. nd\<lparr>outgoing := l\<rparr>) g)))"

definition incoming_remove :: "ref option \<Rightarrow> ref \<Rightarrow> graph \<Rightarrow> error + graph" where
  "incoming_remove n e g =
     (case n of
        None \<Rightarrow> Inr g
      | Some m \<Rightarrow> ebind (list_remove e (incoming (node_heap g m)))
                   (\<lambda>l. Inr (upd_node m (\<lambda>nd. nd\<lparr>incoming := l\<rparr>) g)))"

definition outgoing_append :: "ref option \<Rightarrow> ref \<Rightarrow> graph \<Rightarrow> graph" where
  "outgoing_append n e g =
     (case n of None \<Rightarrow> g | Some m \<Rightarrow> upd_node m (\<lambda>nd. nd\<lparr>outgoing := outgoing nd @ [e]\<rparr>) g)"

definition incoming_append :: "ref option \<Rightarrow> ref \<Rightarrow> graph \<Rightarrow> graph" where
  "incoming_append n e g =
     (case n of None \<Rightarrow> g | Some m \<Rightarrow> upd_node m (\<lambda>nd. nd\<lparr>incoming := incoming nd @ [e]\<rparr>) g)"

definition set_source :: "ref \<Rightarrow> ref option \<Rightarrow> graph \<Rightarrow> error + graph" where
  "set_source e src g =
     (if src \<noteq> source (edge_heap g e) then
        ebind (outgoing_remove (source (edge_heap g e)) e g)
          (\<lambda>g. let g = outgoing_append src e g
                in Inr (upd_edge e (\<lambda>ed. ed\<lparr>source := src\<rparr>) g))
      else Inr g)"

definition set_target :: "ref \<Rightarrow> ref option \<Rightarrow> graph \<Rightarrow> error + graph" where
  "set_target e tgt g =
     (if tgt \<noteq> target (edge_heap g e) then
        ebind (incoming_remove (target (edge_heap g e)) e g)
          (\<lambda>g. let g = incoming_append tgt e g
                in Inr (upd_edge e (\<lambda>ed. ed\<lparr>target := tgt\<rparr>) g))
      else Inr g)"

text \<open>
  The last loop of \<^verbatim>\<open>Edge.flip\<close>, over the edge's scenery objects. For an object
  positioned relative to this edge, \<^verbatim>\<open>obj.pose = obj.pose.reverse()\<close> gives the object a
  new \<^verbatim>\<open>Pose\<close> with the reversed direction around the \<^verbatim>\<open>Vector\<close> it had; the next two
  statements assign to that \<^verbatim>\<open>Vector\<close> in place (\<^verbatim>\<open>x\<close> becomes \<^verbatim>\<open>self.length() - x\<close>,
  \<^verbatim>\<open>y\<close> becomes \<^verbatim>\<open>-y\<close>), for every object that holds it.
\<close>

fun flip_objects :: "ref \<Rightarrow> ref list \<Rightarrow> graph \<Rightarrow> error + graph" where
  "flip_objects e [] g = Inr g"
| "flip_objects e (obj # objs) g =
     (if relative_to (obj_heap g obj) = Some e then
        let g = upd_obj obj (\<lambda>ob. ob\<lparr>obj_direction := direction (reverse (obj_pose g obj))\<rparr>) g
        in ebind (edge_length g e)
             (\<lambda>len. let v = obj_pos (obj_heap g obj);
                         g = upd_vec v (\<lambda>p. Vector (len - vx p) (vy p)) g;
                         g = upd_vec v (\<lambda>p. Vector (vx p) (vy p * - 1)) g
                     in flip_objects e objs g)
      else flip_objects e objs g)"

definition flip :: "ref \<Rightarrow> graph \<Rightarrow> error + graph" where
  "flip e g =
     ebind (outgoing_remove (source (edge_heap g e)) e g)
       (\<lambda>g. ebind (incoming_remove (target (edge_heap g e)) e g)
       (\<lambda>g. let g = upd_edge e (\<lambda>ed. ed\<lparr>source := target ed, target := source ed\<rparr>) g;
                 g = incoming_append (target (edge_heap g e)) e g;
                 g = outgoing_append (source (edge_heap g e)) e g;
                 g = upd_edge e (\<lambda>ed. ed\<lparr>segments := map seg_flip (segments ed)\<rparr>) g;
                 g = upd_edge e (\<lambda>ed. ed\<lparr>segments := rev (segments ed)\<rparr>) g
             in flip_objects e (edge_scenery_objects (edge_heap g e)) g))"

text \<open>
  \<^verbatim>\<open>Edge.to_global\<close> on a \<^verbatim>\<open>Pose\<close>. For an edge without segments the source builds a
  segment from \<^verbatim>\<open>self.start()\<close> and \<^verbatim>\<open>self.length()\<close>, transforms with it and drops the
  result (a statement without \<^verbatim>\<open>return\<close>); the loop then finds nothing and the method
  returns \<^verbatim>\<open>None\<close>. A \<^verbatim>\<open>Pose\<close> is always true, so \<^verbatim>\<open>if transformed\<close> asks for a result
  other than \<^verbatim>\<open>None\<close>.
\<close>

fun to_global_loop :: "edge_segment list \<Rightarrow> nat \<Rightarrow> nat \<Rightarrow> pose \<Rightarrow> real \<Rightarrow> bool \<Rightarrow> bool \<Rightarrow> pose option" where
  "to_global_loop [] idx n other offset extend_before extend_after = None"
| "to_global_loop (segment # rest) idx n other offset extend_before extend_after =
     (case seg_to_global segment other offset (extend_before \<and> idx = 0) (extend_after \<and> idx = n - 1) of
        Some transformed \<Rightarrow> Some transformed
      | None \<Rightarrow> to_global_loop rest (idx + 1) n other (offset + seg_length segment) extend_before extend_after)"

definition edge_to_global :: "graph \<Rightarrow> ref \<Rightarrow> pose \<Rightarrow> real \<Rightarrow> bool \<Rightarrow> bool \<Rightarrow> error + pose option" where
  "edge_to_global g e other offset extend_before extend_after =
     (let segs = segments (edge_heap g e)
      in ebind (if segs = [] then ebind (edge_start g e) (\<lambda>_. ebind (edge_length g e) (\<lambda>_. Inr ()))
                else Inr ())
           (\<lambda>_. Inr (to_global_loop segs 0 (length segs) other offset extend_before extend_after)))"

definition global_pose :: "graph \<Rightarrow> ref \<Rightarrow> error + pose option" where
  "global_pose g obj =
     (case relative_to (obj_heap g obj) of
        Some e \<Rightarrow> edge_to_global g e (obj_pose g obj) 0 True True
      | None \<Rightarrow> Inr (Some (obj_pose g obj)))"


subsection \<open>Nodes and ends\<close>

text \<open>The constructors \<^verbatim>\<open>Node(pose, graph, s)\<close> and \<^verbatim>\<open>Edge(source, target, graph)\<close>.\<close>

definition new_node :: "pose \<Rightarrow> bool \<Rightarrow> real \<Rightarrow> graph \<Rightarrow> graph \<times> ref" where
  "new_node q in_graph s g =
     (let n = next_ref g;
          g = g\<lparr>node_heap := (node_heap g)
                  (n := \<lparr>node_pose = q, incoming = [], outgoing = [], node_s = s, node_graph = in_graph\<rparr>),
                next_ref := n + 1\<rparr>;
          g = (if in_graph then g\<lparr>nodes := nodes g @ [n]\<rparr> else g)
      in (g, n))"

definition new_edge :: "ref option \<Rightarrow> ref option \<Rightarrow> bool \<Rightarrow> graph \<Rightarrow> graph \<times> ref" where
  "new_edge src tgt in_graph g =
     (let e = next_ref g;
          in_graph = (in_graph \<or> (case src of Some n \<Rightarrow> node_graph (node_heap g n) | None \<Rightarrow> False)
                        \<or> (case tgt of Some n \<Rightarrow> node_graph (node_heap g n) | None \<Rightarrow> False));
          g = g\<lparr>edge_heap := (edge_heap g)
                  (e := \<lparr>source = src, target = tgt, segments = [], edge_scenery_objects = [],
                         edge_graph = in_graph\<rparr>),
                next_ref := e + 1\<rparr>;
          g = outgoing_append src e g;
          g = incoming_append tgt e g;
          g = (if in_graph then g\<lparr>edges := edges g @ [e]\<rparr> else g)
      in (g, e))"

definition end_pose :: "graph \<Rightarrow> End \<Rightarrow> error + pose" where
  "end_pose g en = (if end_side en = SOURCE then edge_start g (end_edge en) else edge_end g (end_edge en))"

definition node_of_end :: "graph \<Rightarrow> End \<Rightarrow> ref option" where
  "node_of_end g en =
     (if end_side en = SOURCE then source (edge_heap g (end_edge en)) else target (edge_heap g (end_edge en)))"

definition set_node :: "End \<Rightarrow> ref option \<Rightarrow> graph \<Rightarrow> error + graph" where
  "set_node en n g =
     (if end_side en = SOURCE then set_source (end_edge en) n g else set_target (end_edge en) n g)"

definition end_radius :: "graph \<Rightarrow> End \<Rightarrow> real" where
  "end_radius g en =
     (let segs = segments (edge_heap g (end_edge en))
      in if segs \<noteq> [] then
           (if end_side en = SOURCE then seg_radius (hd segs) else - seg_radius (last segs))
         else 0)"

definition curvature :: "graph \<Rightarrow> End \<Rightarrow> real" where
  "curvature g en = (let r = end_radius g en in if r = 0 then r else 1 / r)"

definition other_end :: "End \<Rightarrow> End" where
  "other_end en = (if end_side en = SOURCE then End (end_edge en) TARGET else End (end_edge en) SOURCE)"

definition directions :: "graph \<Rightarrow> ref \<Rightarrow> error + real list" where
  "directions g n =
     ebind (emap (\<lambda>e. ebind (edge_end g e) (\<lambda>q. Inr (direction q))) (incoming (node_heap g n)))
       (\<lambda>ins. ebind (emap (\<lambda>e. ebind (edge_start g e) (\<lambda>q. Inr (direction q))) (outgoing (node_heap g n)))
       (\<lambda>outs. Inr (ins @ outs)))"

text \<open>
  The loop of \<^verbatim>\<open>calculate_direction\<close> for three or more directions: the first index
  \<^verbatim>\<open>i\<close> whose direction is more than \<^verbatim>\<open>0.66 * math.pi\<close> away from all the others.
\<close>

fun find_tip :: "real list \<Rightarrow> nat list \<Rightarrow> real option" where
  "find_tip dirs [] = None"
| "find_tip dirs (i # rest) =
     (if list_all (\<lambda>d. \<bar>angle_between (dirs ! i) d\<bar> > 0.66 * pi) (take i dirs @ drop (i + 1) dirs)
      then Some (dirs ! i)
      else find_tip dirs rest)"

definition calculate_direction :: "ref \<Rightarrow> graph \<Rightarrow> error + bool \<times> graph" where
  "calculate_direction n g =
     ebind (directions g n)
       (\<lambda>dirs.
          let p = pos (node_pose (node_heap g n)) in
          if length dirs = 1 then
            Inr (True, upd_node n (\<lambda>nd. nd\<lparr>node_pose := Pose p (dirs ! 0)\<rparr>) g)
          else if length dirs = 2 then
            (if \<bar>angle_between (dirs ! 0) (dirs ! 1)\<bar> \<le> 0.5 * pi then Inr (False, g)
             else Inr (True, upd_node n
                    (\<lambda>nd. nd\<lparr>node_pose := Pose p (dirs ! 1 + angle_between (dirs ! 1) (dirs ! 0 + pi) * 0.5)\<rparr>) g))
          else
            (case find_tip dirs [0..<length dirs] of
               Some d \<Rightarrow> Inr (True, upd_node n (\<lambda>nd. nd\<lparr>node_pose := Pose p d\<rparr>) g)
             | None \<Rightarrow> Inr (False, g)))"

definition degree :: "graph \<Rightarrow> ref \<Rightarrow> nat" where
  "degree g n = length (incoming (node_heap g n)) + length (outgoing (node_heap g n))"

text \<open>
  \<^verbatim>\<open>Node.ends\<close>: the ends at the node, sorted (stably, as \<^verbatim>\<open>list.sort\<close> does) by the
  angle between the node's direction and the end's direction. The second statement of the
  source, \<^verbatim>\<open>ends[1:].sort(key=End.curvature)\<close>, sorts a copy of the slice and leaves
  \<^verbatim>\<open>ends\<close> as it is; computing the curvatures raises nothing.
\<close>

definition ends :: "graph \<Rightarrow> ref \<Rightarrow> error + End list" where
  "ends g n =
     (let es = map (\<lambda>e. End e TARGET) (incoming (node_heap g n))
             @ map (\<lambda>e. End e SOURCE) (outgoing (node_heap g n))
      in ebind (emap (\<lambda>en. ebind (end_pose g en)
                  (\<lambda>q. Inr (\<bar>angle_between (direction (node_pose (node_heap g n))) (direction q)\<bar>, en))) es)
           (\<lambda>keyed. Inr (map snd (sort_key fst keyed))))"

definition connected_ends :: "graph \<Rightarrow> ref \<Rightarrow> End \<Rightarrow> error + End list" where
  "connected_ends g n en =
     ebind (ends g n)
       (\<lambda>es. if en \<notin> set es then Inl AssertionError
             else if en = hd es then Inr (tl es)
             else Inr (take 1 es))"

definition node_add_edge :: "ref \<Rightarrow> real \<Rightarrow> real \<Rightarrow> bool \<Rightarrow> graph \<Rightarrow> error + graph \<times> End" where
  "node_add_edge n len radius backward g =
     (case new_edge (Some n) None False g of
        (g, e) \<Rightarrow>
          let start_pose = (if (len < 0) \<noteq> backward then reverse (node_pose (node_heap g n))
                            else node_pose (node_heap g n));
              segment = \<lparr>seg_start = start_pose, seg_length = \<bar>len\<bar>, seg_radius = radius\<rparr>;
              g = upd_edge e (\<lambda>ed. ed\<lparr>segments := segments ed @ [segment]\<rparr>) g;
              end_pose = seg_end segment
          in (case new_node (reverse end_pose) (node_graph (node_heap g n)) (node_s (node_heap g n) + len) g of
                (g, m) \<Rightarrow>
                  ebind (set_target e (Some m) g)
                    (\<lambda>g. if len \<ge> 0 then Inr (g, End e TARGET)
                          else ebind (flip e g) (\<lambda>g. Inr (g, End e SOURCE)))))"

text \<open>
  \<^verbatim>\<open>End.add_edge\<close>. \<^verbatim>\<open>self.node()\<close> may be \<^verbatim>\<open>None\<close>, and a method call on it raises
  \<^verbatim>\<open>AttributeError\<close>.
\<close>

definition end_add_edge :: "End \<Rightarrow> real \<Rightarrow> real \<Rightarrow> bool \<Rightarrow> graph \<Rightarrow> error + graph \<times> End" where
  "end_add_edge en len radius extend_edge g =
     (if len = 0 then Inr (g, en)
      else
        (case node_of_end g en of
           None \<Rightarrow> Inl AttributeError
         | Some n \<Rightarrow>
             if extend_edge \<and> len \<ge> 0 \<and> degree g n = 1 then
               ebind (end_pose g en)
                 (\<lambda>q. let start_pose = reverse q;
                           segment = \<lparr>seg_start = start_pose, seg_length = len, seg_radius = radius\<rparr>;
                           end_pose = seg_end segment;
                           g = (if end_side en = TARGET then
                                  upd_node n (\<lambda>nd. nd\<lparr>node_s := node_s nd + len\<rparr>)
                                    (upd_edge (end_edge en) (\<lambda>ed. ed\<lparr>segments := segments ed @ [segment]\<rparr>) g)
                                else
                                  upd_node n (\<lambda>nd. nd\<lparr>node_s := node_s nd - len\<rparr>)
                                    (upd_edge (end_edge en)
                                       (\<lambda>ed. ed\<lparr>segments := seg_flip segment # segments ed\<rparr>) g));
                           g = upd_node n (\<lambda>nd. nd\<lparr>node_pose := pose_copy end_pose\<rparr>) g
                       in Inr (g, en))
             else
               ebind (connected_ends g n en)
                 (\<lambda>conn. ebind (end_pose g en)
                 (\<lambda>q. ebind (if conn \<noteq> [] then
                                node_add_edge n len radius True
                                  (upd_node n (\<lambda>nd. nd\<lparr>node_pose := pose_copy q\<rparr>) g)
                              else
                                node_add_edge n len radius False
                                  (upd_node n (\<lambda>nd. nd\<lparr>node_pose := reverse q\<rparr>) g))
                 (\<lambda>(g, next_end).
                    if end_side en = SOURCE then
                      ebind (flip (end_edge next_end) g) (\<lambda>g. Inr (g, End (end_edge next_end) SOURCE))
                    else Inr (g, next_end))))))"


subsection \<open>Contraction of edges\<close>

definition remove_edge :: "ref \<Rightarrow> graph \<Rightarrow> error + graph" where
  "remove_edge e g =
     ebind (set_source e None g)
       (\<lambda>g. ebind (set_target e None g)
       (\<lambda>g. ebind (list_remove e (edges g))
       (\<lambda>l. Inr (g\<lparr>edges := l\<rparr>))))"

text \<open>
  The loop of \<^verbatim>\<open>contract_edges\<close> over the scenery objects of the removed edge \<^verbatim>\<open>e2\<close>:
  an object relative to \<^verbatim>\<open>e2\<close> becomes relative to \<^verbatim>\<open>e1\<close>, and
  \<^verbatim>\<open>obj.pose.pos.x += e1.length()\<close> shifts its \<^verbatim>\<open>Vector\<close> in place, for every object that
  holds it; every object of the list is appended to the objects of \<^verbatim>\<open>e1\<close>.
\<close>

fun reparent_objects :: "ref \<Rightarrow> ref \<Rightarrow> ref list \<Rightarrow> graph \<Rightarrow> error + graph" where
  "reparent_objects e1 e2 [] g = Inr g"
| "reparent_objects e1 e2 (obj # objs) g =
     ebind (if relative_to (obj_heap g obj) = Some e2 then
              let g = upd_obj obj (\<lambda>ob. ob\<lparr>relative_to := Some e1\<rparr>) g
              in ebind (edge_length g e1)
                   (\<lambda>len. Inr (upd_vec (obj_pos (obj_heap g obj)) (\<lambda>p. Vector (vx p + len) (vy p)) g))
            else Inr g)
       (\<lambda>g. reparent_objects e1 e2 objs
               (upd_edge e1 (\<lambda>ed. ed\<lparr>edge_scenery_objects := edge_scenery_objects ed @ [obj]\<rparr>) g))"

text \<open>
  The dictionary \<^verbatim>\<open>removed\<close> maps removed nodes and edges to the edge they were merged
  into. Nodes and edges live in two tables, so a key says which one it is.
\<close>

datatype entity = NodeKey ref | EdgeKey ref

text \<open>The body of the loop of \<^verbatim>\<open>contract_edges\<close> for one node, and the loop.\<close>

definition contract_node :: "ref \<Rightarrow> graph \<times> (entity \<rightharpoonup> ref) \<Rightarrow> error + graph \<times> (entity \<rightharpoonup> ref)" where
  "contract_node n st =
     (case st of
        (g, removed) \<Rightarrow>
          if degree g n = 2 then
            (let es = incoming (node_heap g n) @ outgoing (node_heap g n)
             in if es ! 0 = es ! 1 then Inr (g, removed)
                else
                  ebind (if length (incoming (node_heap g n)) = 2 then flip (incoming (node_heap g n) ! 1) g
                         else Inr g)
                    (\<lambda>g. ebind (if length (outgoing (node_heap g n)) = 2
                                 then flip (outgoing (node_heap g n) ! 1) g else Inr g)
                    (\<lambda>g. if length (incoming (node_heap g n)) \<noteq> 1 then Inl AssertionError
                          else if length (outgoing (node_heap g n)) \<noteq> 1 then Inl AssertionError
                          else
                            let e1 = incoming (node_heap g n) ! 0;
                                e2 = outgoing (node_heap g n) ! 0
                            in ebind (set_target e1 (target (edge_heap g e2)) g)
                                 (\<lambda>g. ebind (reparent_objects e1 e2 (edge_scenery_objects (edge_heap g e2)) g)
                                 (\<lambda>g. let g = upd_edge e2 (\<lambda>ed. ed\<lparr>edge_scenery_objects := []\<rparr>) g;
                                           g = upd_edge e1
                                                 (\<lambda>ed. ed\<lparr>segments := segments ed @ segments (edge_heap g e2)\<rparr>) g
                                       in ebind (remove_edge e2 g)
                                            (\<lambda>g. let removed = removed(NodeKey n \<mapsto> e1, EdgeKey e2 \<mapsto> e1)
                                                  in ebind (list_remove n (nodes g))
                                                       (\<lambda>l. Inr (g\<lparr>nodes := l\<rparr>, removed))))))))
          else Inr (g, removed))"

fun contract_loop :: "ref list \<Rightarrow> graph \<times> (entity \<rightharpoonup> ref) \<Rightarrow> error + graph \<times> (entity \<rightharpoonup> ref)" where
  "contract_loop [] st = Inr st"
| "contract_loop (n # ns) st = ebind (contract_node n st) (contract_loop ns)"

definition contract_edges :: "graph \<Rightarrow> error + graph \<times> (entity \<rightharpoonup> ref)" where
  "contract_edges g = contract_loop (nodes g) (g, Map.empty)"

subsection \<open>Paths and the shortest path\<close>

record path =
  path_ends :: "End list"
  start_offset :: real
  end_offset :: real

datatype start_arg = StartNode ref | StartEnd End

text \<open>
  The priority queue of \<^verbatim>\<open>heapq\<close> holds tuples \<^verbatim>\<open>(length, cnt, end)\<close>. It is a list here;
  \<^verbatim>\<open>heappop\<close> takes out the least tuple. The counters of the entries are pairwise
  different, so the order of the tuples is decided by \<^verbatim>\<open>(length, cnt)\<close> and the least
  one is unique.
\<close>

type_synonym heap_entry = "real \<times> nat \<times> End"

definition entry_less :: "heap_entry \<Rightarrow> heap_entry \<Rightarrow> bool" where
  "entry_less a b \<longleftrightarrow> fst a < fst b \<or> (fst a = fst b \<and> fst (snd a) < fst (snd b))"

fun least_entry :: "heap_entry \<Rightarrow> heap_entry list \<Rightarrow> heap_entry" where
  "least_entry m [] = m"
| "least_entry m (a # as) = least_entry (if entry_less a m then a else m) as"

definition heappush :: "heap_entry list \<Rightarrow> heap_entry \<Rightarrow> heap_entry list" where
  "heappush heap a = heap @ [a]"

definition heappop :: "heap_entry list \<Rightarrow> heap_entry \<times> heap_entry list" where
  "heappop heap = (let m = least_entry (hd heap) (tl heap) in (m, remove1 m heap))"

text \<open>The first loop of \<^verbatim>\<open>find_shortest_path\<close>, over the ends to start from.\<close>

fun push_start_ends ::
  "graph \<Rightarrow> End list \<Rightarrow> heap_entry list \<times> (End \<rightharpoonup> End option) \<times> nat
     \<Rightarrow> error + heap_entry list \<times> (End \<rightharpoonup> End option) \<times> nat" where
  "push_start_ends g [] st = Inr st"
| "push_start_ends g (en # rest) (heap, predecessors, cnt) =
     ebind (edge_length g (end_edge en))
       (\<lambda>len. push_start_ends g rest (heappush heap (len, cnt, en), predecessors(en \<mapsto> None), cnt + 1))"

text \<open>The inner loop, over the ends connected to the far end of the edge just taken.\<close>

fun push_connected_ends ::
  "graph \<Rightarrow> real \<Rightarrow> End \<Rightarrow> End list \<Rightarrow> heap_entry list \<times> (End \<rightharpoonup> End option) \<times> nat
     \<Rightarrow> error + heap_entry list \<times> (End \<rightharpoonup> End option) \<times> nat" where
  "push_connected_ends g s current_end [] st = Inr st"
| "push_connected_ends g s current_end (en # rest) (heap, predecessors, cnt) =
     (if predecessors en = None then
        ebind (edge_length g (end_edge en))
          (\<lambda>len. push_connected_ends g s current_end rest
                   (heappush heap (s + len, cnt, en), predecessors(en \<mapsto> Some current_end), cnt + 1))
      else push_connected_ends g s current_end rest (heap, predecessors, cnt))"

text \<open>
  The \<^verbatim>\<open>while heap\<close> loop. It returns the value of \<^verbatim>\<open>current_end\<close> when it ends, by
  \<^verbatim>\<open>break\<close> or with an empty queue, and the dictionary of predecessors.
\<close>

partial_function (option) search_loop ::
  "graph \<Rightarrow> ref \<Rightarrow> heap_entry list \<Rightarrow> (End \<rightharpoonup> End option) \<Rightarrow> nat \<Rightarrow> End option
     \<Rightarrow> (error + End option \<times> (End \<rightharpoonup> End option)) option" where
  "search_loop g end_node heap predecessors cnt current_end =
     (if heap = [] then Some (Inr (current_end, predecessors))
      else
        (case heappop heap of
           ((s, _, current_end), heap) \<Rightarrow>
             (let other = other_end current_end
              in if node_of_end g other = Some end_node then Some (Inr (Some current_end, predecessors))
                 else
                   (case node_of_end g other of
                      None \<Rightarrow> Some (Inl AttributeError)
                    | Some n \<Rightarrow>
                        (case connected_ends g n other of
                           Inl e \<Rightarrow> Some (Inl e)
                         | Inr conn \<Rightarrow>
                             (case push_connected_ends g s current_end conn (heap, predecessors, cnt) of
                                Inl e \<Rightarrow> Some (Inl e)
                              | Inr (heap, predecessors, cnt) \<Rightarrow>
                                  search_loop g end_node heap predecessors cnt (Some current_end)))))))"

text \<open>The last loop: from \<^verbatim>\<open>current_end\<close> back along the predecessors.\<close>

partial_function (option) path_back ::
  "(End \<rightharpoonup> End option) \<Rightarrow> End option \<Rightarrow> End list \<Rightarrow> (error + End list) option" where
  "path_back predecessors current_end pth =
     (case current_end of
        None \<Rightarrow> Some (Inr pth)
      | Some en \<Rightarrow>
          (case predecessors en of
             None \<Rightarrow> Some (Inl KeyError)
           | Some prev \<Rightarrow> path_back predecessors prev (en # pth)))"

definition find_shortest_path :: "graph \<Rightarrow> start_arg \<Rightarrow> ref \<Rightarrow> (error + path) option" where
  "find_shortest_path g start end_node =
     (case (case start of StartNode n \<Rightarrow> ends g n | StartEnd en \<Rightarrow> Inr [en]) of
        Inl e \<Rightarrow> Some (Inl e)
      | Inr start_ends \<Rightarrow>
          (case push_start_ends g start_ends ([], Map.empty, 0) of
             Inl e \<Rightarrow> Some (Inl e)
           | Inr (heap, predecessors, cnt) \<Rightarrow>
               (case search_loop g end_node heap predecessors cnt None of
                  None \<Rightarrow> None
                | Some (Inl e) \<Rightarrow> Some (Inl e)
                | Some (Inr (current_end, predecessors)) \<Rightarrow>
                    (case path_back predecessors current_end [] of
                       None \<Rightarrow> None
                     | Some (Inl e) \<Rightarrow> Some (Inl e)
                     | Some (Inr pth) \<Rightarrow>
                         Some (Inr \<lparr>path_ends = pth, start_offset = 0, end_offset = 0\<rparr>)))))"


text \<open>
  A route to \<open>end_node\<close> is a list of ends, each the end at which the search enters an
  edge: the far end of the last edge is at \<open>end_node\<close>, and the far end of every other
  edge is at a node, not \<open>end_node\<close>, where \<^verbatim>\<open>connected_ends\<close> leads on to the next end of
  the route and nowhere else. \<open>chain\<close> says that the dictionary of predecessors links the
  ends of a list, the first one to \<open>prev\<close>.
\<close>

fun route :: "graph \<Rightarrow> ref \<Rightarrow> End list \<Rightarrow> bool" where
  "route g end_node [] = False"
| "route g end_node [en] = (node_of_end g (other_end en) = Some end_node)"
| "route g end_node (en # en' # rest) =
     (case node_of_end g (other_end en) of
        None \<Rightarrow> False
      | Some n \<Rightarrow> n \<noteq> end_node \<and> connected_ends g n (other_end en) = Inr [en']
                  \<and> route g end_node (en' # rest))"

fun chain :: "(End \<rightharpoonup> End option) \<Rightarrow> End option \<Rightarrow> End list \<Rightarrow> bool" where
  "chain predecessors prev [] = True"
| "chain predecessors prev (en # rest) = (predecessors en = Some prev \<and> chain predecessors (Some en) rest)"


subsection \<open>Graphs used as concrete inputs\<close>

text \<open>
  \<open>Graph\<close> is the constructor \<^verbatim>\<open>Graph()\<close>: no nodes, no edges, no scenery objects. The
  tables hold a blank object at every reference that is not in use.
\<close>

definition Graph :: graph where
  "Graph =
     \<lparr>node_heap = (\<lambda>_. \<lparr>node_pose = RawPose (Vector 0 0) 0, incoming = [], outgoing = [],
                          node_s = 0, node_graph = False\<rparr>),
      edge_heap = (\<lambda>_. \<lparr>source = None, target = None, segments = [], edge_scenery_objects = [],
                          edge_graph = False\<rparr>),
      obj_heap = (\<lambda>_. \<lparr>obj_pos = 0, obj_direction = 0, relative_to = None\<rparr>),
      vec_heap = (\<lambda>_. Vector 0 0),
      next_ref = 0, nodes = [], edges = [], scenery_objects = []\<rparr>"

text \<open>
  A switch: node 0 at the origin with three outgoing straight edges of length 10 in the
  directions \<open>0\<close>, \<open>0.665 * pi\<close> and \<open>1.335 * pi\<close> (119.7 degrees apart from the first),
  as \<^verbatim>\<open>Node.add_edge(10)\<close> builds them when the node's pose is turned in between.
\<close>

definition switch_edge :: "ref \<Rightarrow> real \<Rightarrow> edge" where
  "switch_edge m d =
     \<lparr>source = Some 0, target = Some m,
      segments = [\<lparr>seg_start = RawPose (Vector 0 0) d, seg_length = 10, seg_radius = 0\<rparr>],
      edge_scenery_objects = [], edge_graph = True\<rparr>"

definition switch_leaf :: "ref \<Rightarrow> real \<Rightarrow> node" where
  "switch_leaf e d =
     \<lparr>node_pose = RawPose (polar d 10) d, incoming = [e], outgoing = [], node_s = 10, node_graph = True\<rparr>"

definition switch_graph :: graph where
  "switch_graph =
     Graph\<lparr>node_heap := (node_heap Graph)
             (0 := \<lparr>node_pose = RawPose (Vector 0 0) 0, incoming = [], outgoing = [0, 1, 2],
                    node_s = 0, node_graph = True\<rparr>,
              1 := switch_leaf 0 0, 2 := switch_leaf 1 (0.665 * pi), 3 := switch_leaf 2 (1.335 * pi)),
           edge_heap := (edge_heap Graph)
             (0 := switch_edge 1 0, 1 := switch_edge 2 (0.665 * pi), 2 := switch_edge 3 (1.335 * pi)),
           next_ref := 4, nodes := [0, 1, 2, 3], edges := [0, 1, 2]\<rparr>"


text \<open>
  A single track and a node off the track: node 0 at the origin, a straight edge of
  length 10 to node 1 (as \<^verbatim>\<open>Node.add_edge(10)\<close> builds it), and node 2 with no edge.
\<close>

definition dead_end_graph :: graph where
  "dead_end_graph =
     Graph\<lparr>node_heap := (node_heap Graph)
             (0 := \<lparr>node_pose = RawPose (Vector 0 0) 0, incoming = [], outgoing = [0],
                    node_s = 0, node_graph = True\<rparr>,
              1 := \<lparr>node_pose = RawPose (Vector 10 0) 0, incoming = [0], outgoing = [],
                    node_s = 10, node_graph = True\<rparr>,
              2 := \<lparr>node_pose = RawPose (Vector 50 50) 0, incoming = [], outgoing = [],
                    node_s = 0, node_graph = True\<rparr>),
           edge_heap := (edge_heap Graph)
             (0 := \<lparr>source = Some 0, target = Some 1,
                    segments = [\<lparr>seg_start = RawPose (Vector 0 0) 0, seg_length = 10, seg_radius = 0\<rparr>],
                    edge_scenery_objects = [], edge_graph = True\<rparr>),
           next_ref := 3, nodes := [0, 1, 2], edges := [0]\<rparr>"

text \<open>
  Two parallel routes from node 0 at the origin to node 1 at \<open>(100, 0)\<close>. The short one
  is straight: edge 0 of length 40 to node 2, then edge 1 of length 60. The long one goes
  up at 60 degrees along edge 2 of length 100 to node 3 and down at 60 degrees along edge 3
  of length 100.
\<close>

definition parallel_routes_graph :: graph where
  "parallel_routes_graph =
     Graph\<lparr>node_heap := (node_heap Graph)
             (0 := \<lparr>node_pose = RawPose (Vector 0 0) 0, incoming = [], outgoing = [0, 2],
                    node_s = 0, node_graph = True\<rparr>,
              1 := \<lparr>node_pose = RawPose (Vector 100 0) 0, incoming = [1, 3], outgoing = [],
                    node_s = 100, node_graph = True\<rparr>,
              2 := \<lparr>node_pose = RawPose (Vector 40 0) 0, incoming = [0], outgoing = [1],
                    node_s = 40, node_graph = True\<rparr>,
              3 := \<lparr>node_pose = RawPose (Vector 50 (50 * sqrt 3)) (pi / 3), incoming = [2], outgoing = [3],
                    node_s = 100, node_graph = True\<rparr>),
           edge_heap := (edge_heap Graph)
             (0 := \<lparr>source = Some 0, target = Some 2,
                    segments = [\<lparr>seg_start = RawPose (Vector 0 0) 0, seg_length = 40, seg_radius = 0\<rparr>],
                    edge_scenery_objects = [], edge_graph = True\<rparr>,
              1 := \<lparr>source = Some 2, target = Some 1,
                    segments = [\<lparr>seg_start = RawPose (Vector 40 0) 0, seg_length = 60, seg_radius = 0\<rparr>],
                    edge_scenery_objects = [], edge_graph = True\<rparr>,
              2 := \<lparr>source = Some 0, target = Some 3,
                    segments = [\<lparr>seg_start = RawPose (Vector 0 0) (pi / 3), seg_length = 100, seg_radius = 0\<rparr>],
                    edge_scenery_objects = [], edge_graph = True\<rparr>,
              3 := \<lparr>source = Some 3, target = Some 1,
                    segments = [\<lparr>seg_start = RawPose (Vector 50 (50 * sqrt 3)) (5 * pi / 3),
                                  seg_length = 100, seg_radius = 0\<rparr>],
                    edge_scenery_objects = [], edge_graph = True\<rparr>),
           next_ref := 4, nodes := [0, 1, 2, 3], edges := [0, 1, 2, 3]\<rparr>"

subsection \<open>Scenery objects on their edge\<close>

text \<open>
  The conditions under which contraction is shown to keep global poses.

  \<open>place t other\<close> is what \<^verbatim>\<open>EdgeSegment.to_global\<close> returns for the pose \<open>other\<close> once
  it has travelled to the pose \<open>t\<close> of the track. \<open>first_pose segs u\<close> is the pose of the
  track at offset \<open>u\<close> of a chain of segments, taken from the first segment that reaches
  as far as \<open>u\<close>, and \<open>last_pose segs u\<close> takes it from the last segment that begins at or
  before \<open>u\<close>. \<open>mirrored len q\<close> is the pose that \<^verbatim>\<open>Edge.flip\<close> gives an object with
  pose \<open>q\<close> on an edge of length \<open>len\<close>.
\<close>

definition place :: "pose \<Rightarrow> pose \<Rightarrow> pose" where
  "place t other =
     Pose (v_add (pos t) (v_scale (ortho (polar (direction t) 1)) (vy (pos other))))
       (direction other + direction t)"

fun first_pose :: "edge_segment list \<Rightarrow> real \<Rightarrow> pose" where
  "first_pose [] u = RawPose (Vector 0 0) 0"
| "first_pose [s] u = seg_travel s u"
| "first_pose (s # s' # ss) u =
     (if u \<le> seg_length s then seg_travel s u else first_pose (s' # ss) (u - seg_length s))"

fun last_pose :: "edge_segment list \<Rightarrow> real \<Rightarrow> pose" where
  "last_pose [] u = RawPose (Vector 0 0) 0"
| "last_pose [s] u = seg_travel s u"
| "last_pose (s # s' # ss) u =
     (if u < seg_length s then seg_travel s u else last_pose (s' # ss) (u - seg_length s))"

definition mirrored :: "real \<Rightarrow> pose \<Rightarrow> pose" where
  "mirrored len q = RawPose (Vector (len - vx (pos q)) (- vy (pos q))) (py_mod (direction q + pi) (2 * pi))"

text \<open>
  A scenery object lies on its edge when the edge has segments and the object's \<open>x\<close> lies
  between 0 and the length of the edge, both included. An object that is positioned
  relative to no edge has nothing to lie on.
\<close>

definition on_edge :: "graph \<Rightarrow> ref \<Rightarrow> bool" where
  "on_edge g obj =
     (case relative_to (obj_heap g obj) of
        None \<Rightarrow> True
      | Some e \<Rightarrow> segments (edge_heap g e) \<noteq> [] \<and> 0 \<le> vx (pos (obj_pose g obj))
                 \<and> vx (pos (obj_pose g obj)) \<le> sum_list (map seg_length (segments (edge_heap g e))))"

text \<open>
  A scenery object has a vector of its own when no other object that is positioned
  relative to an edge holds the \<^verbatim>\<open>Vector\<close> of its pose (two objects built from one
  \<^verbatim>\<open>Pose\<close>, or from two poses around one \<^verbatim>\<open>Vector\<close>, hold the same one).
\<close>

definition own_vector :: "graph \<Rightarrow> ref \<Rightarrow> bool" where
  "own_vector g obj \<longleftrightarrow>
     (\<forall>obj'. obj' \<noteq> obj \<and> relative_to (obj_heap g obj') \<noteq> None
        \<longrightarrow> obj_pos (obj_heap g obj') \<noteq> obj_pos (obj_heap g obj))"

text \<open>
  A graph is well formed when
  \<^item> every edge lists its scenery objects once and lists exactly the objects positioned
    relative to it (as the constructor of \<^verbatim>\<open>SceneryObject\<close> leaves them);
  \<^item> no segment has a negative length;
  \<^item> every edge that a node lists as incoming or outgoing has segments;
  \<^item> the lists of the nodes and the fields of the edges agree: a node lists an edge as
    incoming exactly when it is the edge's target and as outgoing exactly when it is the
    edge's source, once (as the constructor of \<^verbatim>\<open>Edge\<close>, \<^verbatim>\<open>set_source\<close> and \<^verbatim>\<open>set_target\<close>
    leave them);
  \<^item> the track is smooth: inside an edge every segment begins with the pose at which the
    segment before it ends, and at a node where two edge ends meet the one edge arrives
    with the pose with which the other one leaves.

  \<open>into g n\<close> lists the poses with which the edges at node \<open>n\<close> run into it: for an
  incoming edge the pose at the end of its last segment, for an outgoing edge the reverse
  of the pose at the begin of its first segment.
\<close>

definition objs_ok :: "graph \<Rightarrow> bool" where
  "objs_ok g \<longleftrightarrow>
     (\<forall>e. distinct (edge_scenery_objects (edge_heap g e))) \<and>
     (\<forall>e obj. obj \<in> set (edge_scenery_objects (edge_heap g e)) \<longleftrightarrow> relative_to (obj_heap g obj) = Some e)"

definition lengths_ok :: "graph \<Rightarrow> bool" where
  "lengths_ok g \<longleftrightarrow> (\<forall>e. \<forall>s\<in>set (segments (edge_heap g e)). 0 \<le> seg_length s)"

definition attached :: "graph \<Rightarrow> ref \<Rightarrow> bool" where
  "attached g e \<longleftrightarrow>
     (\<exists>n. e \<in> set (incoming (node_heap g n)) \<or> e \<in> set (outgoing (node_heap g n)))"

definition segs_ok :: "graph \<Rightarrow> bool" where
  "segs_ok g \<longleftrightarrow> (\<forall>e. attached g e \<longrightarrow> segments (edge_heap g e) \<noteq> [])"

definition lists_ok :: "graph \<Rightarrow> bool" where
  "lists_ok g \<longleftrightarrow>
     (\<forall>n. distinct (incoming (node_heap g n)) \<and> distinct (outgoing (node_heap g n))) \<and>
     (\<forall>e n. e \<in> set (incoming (node_heap g n)) \<longleftrightarrow> target (edge_heap g e) = Some n) \<and>
     (\<forall>e n. e \<in> set (outgoing (node_heap g n)) \<longleftrightarrow> source (edge_heap g e) = Some n)"

fun joined :: "edge_segment list \<Rightarrow> bool" where
  "joined [] = True"
| "joined [s] = True"
| "joined (s # s' # ss) = (seg_travel s (seg_length s) = seg_travel s' 0 \<and> joined (s' # ss))"

definition edge_first :: "graph \<Rightarrow> ref \<Rightarrow> pose" where
  "edge_first g e = seg_travel (hd (segments (edge_heap g e))) 0"

definition edge_last :: "graph \<Rightarrow> ref \<Rightarrow> pose" where
  "edge_last g e =
     seg_travel (last (segments (edge_heap g e))) (seg_length (last (segments (edge_heap g e))))"

definition into :: "graph \<Rightarrow> ref \<Rightarrow> pose list" where
  "into g n =
     map (edge_last g) (incoming (node_heap g n))
       @ map (\<lambda>e. reverse (edge_first g e)) (outgoing (node_heap g n))"

definition opposite :: "pose list \<Rightarrow> bool" where
  "opposite ps \<longleftrightarrow> (\<forall>p q. ps = [p, q] \<longrightarrow> q = reverse p)"

definition smooth :: "graph \<Rightarrow> bool" where
  "smooth g \<longleftrightarrow> (\<forall>e. joined (segments (edge_heap g e))) \<and> (\<forall>n. opposite (into g n))"

definition well_formed :: "graph \<Rightarrow> bool" where
  "well_formed g \<longleftrightarrow> objs_ok g \<and> lengths_ok g \<and> segs_ok g \<and> lists_ok g \<and> smooth g"

subsection \<open>Graphs used as concrete inputs of contraction\<close>

text \<open>
  A straight track into a curve: node 0 at the origin, a straight edge 0 of length 10 to
  node 1, and from node 1 edge 1, a quarter circle of radius 10 to the right, to node 2
  (as \<^verbatim>\<open>Node.add_edge(10)\<close> and \<^verbatim>\<open>End.add_edge(5 * pi, 10, extend_edge=False)\<close> build
  them). Scenery object 0 is positioned relative to edge 0, on the straight line through
  it, \<open>5 * pi\<close> beyond its end.
\<close>

definition curve_graph :: graph where
  "curve_graph =
     Graph\<lparr>node_heap := (node_heap Graph)
             (0 := \<lparr>node_pose = RawPose (Vector 0 0) 0, incoming = [], outgoing = [0],
                    node_s = 0, node_graph = True\<rparr>,
              1 := \<lparr>node_pose = RawPose (Vector 10 0) 0, incoming = [0], outgoing = [1],
                    node_s = 10, node_graph = True\<rparr>,
              2 := \<lparr>node_pose = RawPose (Vector 20 (- 10)) (3 * pi / 2), incoming = [1], outgoing = [],
                    node_s = 10 + 5 * pi, node_graph = True\<rparr>),
           edge_heap := (edge_heap Graph)
             (0 := \<lparr>source = Some 0, target = Some 1,
                    segments = [\<lparr>seg_start = RawPose (Vector 0 0) 0, seg_length = 10, seg_radius = 0\<rparr>],
                    edge_scenery_objects = [0], edge_graph = True\<rparr>,
              1 := \<lparr>source = Some 1, target = Some 2,
                    segments = [\<lparr>seg_start = RawPose (Vector 10 0) 0, seg_length = 5 * pi, seg_radius = 10\<rparr>],
                    edge_scenery_objects = [], edge_graph = True\<rparr>),
           obj_heap := (obj_heap Graph)
             (0 := \<lparr>obj_pos = 0, obj_direction = 0, relative_to = Some 0\<rparr>),
           vec_heap := (vec_heap Graph)(0 := Vector (10 + 5 * pi) 0),
           next_ref := 3, nodes := [0, 1, 2], edges := [0, 1]\<rparr>"

text \<open>
  Two tracks that meet: edge 0 runs straight from node 0 at the origin to node 1 at
  \<open>(10, 0)\<close>, edge 1 runs straight from node 2 at \<open>(20, 0)\<close> to node 1, so that node 1
  has two incoming edges and contraction flips edge 1 before it joins the two. Scenery
  objects 0 and 1 are positioned relative to edge 1, 1 to its left: object 0 lies 3 along
  the edge, object 1 at its end, where the two edges are joined. Each has a
  \<^verbatim>\<open>Vector\<close> of its own.
\<close>

definition meeting_graph :: graph where
  "meeting_graph =
     Graph\<lparr>node_heap := (node_heap Graph)
             (0 := \<lparr>node_pose = RawPose (Vector 0 0) 0, incoming = [], outgoing = [0],
                    node_s = 0, node_graph = True\<rparr>,
              1 := \<lparr>node_pose = RawPose (Vector 10 0) 0, incoming = [0, 1], outgoing = [],
                    node_s = 10, node_graph = True\<rparr>,
              2 := \<lparr>node_pose = RawPose (Vector 20 0) pi, incoming = [], outgoing = [1],
                    node_s = 0, node_graph = True\<rparr>),
           edge_heap := (edge_heap Graph)
             (0 := \<lparr>source = Some 0, target = Some 1,
                    segments = [\<lparr>seg_start = RawPose (Vector 0 0) 0, seg_length = 10, seg_radius = 0\<rparr>],
                    edge_scenery_objects = [], edge_graph = True\<rparr>,
              1 := \<lparr>source = Some 2, target = Some 1,
                    segments = [\<lparr>seg_start = RawPose (Vector 20 0) pi, seg_length = 10, seg_radius = 0\<rparr>],
                    edge_scenery_objects = [0, 1], edge_graph = True\<rparr>),
           obj_heap := (obj_heap Graph)
             (0 := \<lparr>obj_pos = 0, obj_direction = 0, relative_to = Some 1\<rparr>,
              1 := \<lparr>obj_pos = 1, obj_direction = 0, relative_to = Some 1\<rparr>),
           vec_heap := (vec_heap Graph)(0 := Vector 3 1, 1 := Vector 10 1),
           next_ref := 3, nodes := [0, 1, 2], edges := [0, 1]\<rparr>"

text \<open>
  The same two tracks with two scenery objects built from one \<^verbatim>\<open>Pose\<close>
  (\<^verbatim>\<open>p = Pose(Vector(3, 1)); SceneryObject(p, relative_to=e); SceneryObject(p, relative_to=e)\<close>):
  objects 0 and 1 hold the same \<^verbatim>\<open>Vector\<close>.
\<close>

definition shared_graph :: graph where
  "shared_graph =
     meeting_graph\<lparr>obj_heap := (obj_heap meeting_graph)
                     (1 := \<lparr>obj_pos = 0, obj_direction = 0, relative_to = Some 1\<rparr>)\<rparr>"

text \<open>
  A track with a corner: edge 0 runs straight from node 0 at the origin to node 1 at
  \<open>(10, 0)\<close>, and edge 1 leaves node 1 at a right angle, straight to node 2 at
  \<open>(10, 10)\<close>. Scenery object 0 is positioned relative to edge 1, at its begin.
\<close>

definition corner_graph :: graph where
  "corner_graph =
     Graph\<lparr>node_heap := (node_heap Graph)
             (0 := \<lparr>node_pose = RawPose (Vector 0 0) 0, incoming = [], outgoing = [0],
                    node_s = 0, node_graph = True\<rparr>,
              1 := \<lparr>node_pose = RawPose (Vector 10 0) 0, incoming = [0], outgoing = [1],
                    node_s = 10, node_graph = True\<rparr>,
              2 := \<lparr>node_pose = RawPose (Vector 10 10) (pi / 2), incoming = [1], outgoing = [],
                    node_s = 20, node_graph = True\<rparr>),
           edge_heap := (edge_heap Graph)
             (0 := \<lparr>source = Some 0, target = Some 1,
                    segments = [\<lparr>seg_start = RawPose (Vector 0 0) 0, seg_length = 10, seg_radius = 0\<rparr>],
                    edge_scenery_objects = [], edge_graph = True\<rparr>,
              1 := \<lparr>source = Some 1, target = Some 2,
                    segments = [\<lparr>seg_start = RawPose (Vector 10 0) (pi / 2), seg_length = 10, seg_radius = 0\<rparr>],
                    edge_scenery_objects = [0], edge_graph = True\<rparr>),
           obj_heap := (obj_heap Graph)
             (0 := \<lparr>obj_pos = 0, obj_direction = 0, relative_to = Some 1\<rparr>),
           vec_heap := (vec_heap Graph)(0 := Vector 0 0),
           next_ref := 3, nodes := [0, 1, 2], edges := [0, 1]\<rparr>"

section \<open>Theorems\<close>

subsection \<open>The indexer\<close>

lemma get_or_add_seq_fresh:
  "distinct xs \<Longrightarrow> set xs \<inter> fst ` set (indices ix) = {} \<Longrightarrow>
   get_or_add_seq ix ats xs = (ids, ix', ats') \<Longrightarrow>
   ids = map (\<lambda>i. next_index ix + int i) [0..<length xs] \<and>
   next_index ix' = next_index ix + int (length xs) \<and>
   indices ix' = indices ix @ zip xs ids \<and> key ix' = key ix"
proof (induction xs arbitrary: ix ats ids ix' ats')
  case Nil
  then show ?case by simp
next
  case (Cons x xs)
  from Cons.prems(2) have nx: "map_of (indices ix) x = None"
    by (auto simp: map_of_eq_None_iff)
  obtain ix1 ats1 where s1: "get_or_add ix ats x = (next_index ix, ix1, ats1)"
    and ix1: "ix1 = ix\<lparr>next_index := next_index ix + 1, indices := indices ix @ [(x, next_index ix)]\<rparr>"
    using nx by (simp add: get_or_add_def Let_def)
  obtain ids1 where s2: "get_or_add_seq ix1 ats1 xs = (ids1, ix', ats')" and ids: "ids = next_index ix # ids1"
    using Cons.prems(3) s1 by (auto split: prod.splits)
  have d: "distinct xs" and disj: "set xs \<inter> fst ` set (indices ix1) = {}"
    using Cons.prems(1,2) by (auto simp: ix1)
  from Cons.IH[OF d disj s2] have ih: "ids1 = map (\<lambda>i. next_index ix1 + int i) [0..<length xs]"
    "next_index ix' = next_index ix1 + int (length xs)"
    "indices ix' = indices ix1 @ zip xs ids1" "key ix' = key ix1" by auto
  have "map (\<lambda>i. next_index ix + int i) [0..<length (x # xs)] = next_index ix # map (\<lambda>i. next_index ix1 + int i) [0..<length xs]"
    by (simp add: ix1 upt_conv_Cons map_Suc_upt[symmetric] del: upt_Suc) 
  then show ?case using ih ids by (simp add: ix1)
qed

lemma get_or_add_keeps:
  "map_of (indices ix) x = Some v \<Longrightarrow> get_or_add ix ats y = (j, ix', ats') \<Longrightarrow>
   map_of (indices ix') x = Some v"
  by (auto simp: get_or_add_def Let_def split: option.splits)

lemma get_or_add_seq_keeps:
  "map_of (indices ix) x = Some v \<Longrightarrow> get_or_add_seq ix ats ys = (ids, ix', ats') \<Longrightarrow>
   map_of (indices ix') x = Some v"
proof (induction ys arbitrary: ix ats ids)
  case Nil
  then show ?case by simp
next
  case (Cons y ys)
  obtain j ix1 ats1 where s1: "get_or_add ix ats y = (j, ix1, ats1)"
    by (cases "get_or_add ix ats y") auto
  obtain ids1 where s2: "get_or_add_seq ix1 ats1 ys = (ids1, ix', ats')"
    using Cons.prems(2) s1 by (auto split: prod.splits)
  show ?case
    using Cons.IH[OF get_or_add_keeps[OF Cons.prems(1) s1] s2] .
qed

lemma get_or_add_seen:
  "map_of (indices ix) x = Some v \<Longrightarrow> get_or_add ix ats x = (v, ix, ats)"
  by (simp add: get_or_add_def)

text \<open>
  Claim C5. A fresh indexer with first index \<open>f\<close> gives \<open>N\<close> distinct entities, registered
  in order, the ids \<open>f, f + 1, ..., f + N - 1\<close> (strictly increasing, distinct, and
  \<open>next_index\<close> ends at \<open>f + N\<close>). Registering an entity again returns the id it was
  first given and changes nothing, directly afterwards and after any further
  registrations \<open>ys\<close>.
\<close>

theorem indexer_ids_in_order:
  assumes "distinct xs"
    and "get_or_add_seq (Indexer k f) ats xs = (ids, ix1, ats1)"
    and "get_or_add_seq ix1 ats1 ys = (ids2, ix2, ats2)"
    and "i < length xs"
  shows "ids = map (\<lambda>j. f + int j) [0..<length xs] \<and> sorted_wrt (<) ids \<and> distinct ids \<and>
         next_index ix1 = f + int (length xs) \<and>
         get_or_add ix1 ats1 (xs ! i) = (f + int i, ix1, ats1) \<and>
         get_or_add ix2 ats2 (xs ! i) = (f + int i, ix2, ats2)"
proof -
  have fresh: "set xs \<inter> fst ` set (indices (Indexer k f)) = {}"
    by (simp add: Indexer_def)
  from get_or_add_seq_fresh[OF assms(1) fresh assms(2)]
  have ids: "ids = map (\<lambda>j. f + int j) [0..<length xs]"
    and nx: "next_index ix1 = f + int (length xs)"
    and ind: "indices ix1 = zip xs ids"
    by (simp_all add: Indexer_def)
  have len: "length ids = length xs" by (simp add: ids)
  have "map_of (zip xs ids) (xs ! i) = Some (ids ! i)"
    using assms(1,4) len by (simp add: map_of_zip_nth)
  then have seen: "map_of (indices ix1) (xs ! i) = Some (f + int i)"
    using assms(4) by (simp add: ind ids)
  have inc: "sorted_wrt (<) ids"
    unfolding ids by (simp add: sorted_wrt_map sorted_wrt_upt)
  have "distinct ids"
    unfolding ids by (simp add: distinct_map inj_on_def)
  with ids inc nx get_or_add_seen[OF seen] get_or_add_seen[OF get_or_add_seq_keeps[OF seen assms(3)]]
  show ?thesis by simp
qed

theorem indexer_ids_in_order_witness:
  "get_or_add_seq (Indexer ''or_tdb_index'' 1) (\<lambda>_. Map.empty) [7, 3, 5] =
     ([1, 2, 3], \<lparr>key = ''or_tdb_index'', next_index = 4, indices = [(7, 1), (3, 2), (5, 3)]\<rparr>,
      (\<lambda>_. Map.empty)(7 := [''or_tdb_index'' \<mapsto> 1], 3 := [''or_tdb_index'' \<mapsto> 2], 5 := [''or_tdb_index'' \<mapsto> 3]))
   \<and> get_or_add \<lparr>key = ''or_tdb_index'', next_index = 4, indices = [(7, 1), (3, 2), (5, 3)]\<rparr>
         ((\<lambda>_. Map.empty)(7 := [''or_tdb_index'' \<mapsto> 1], 3 := [''or_tdb_index'' \<mapsto> 2], 5 := [''or_tdb_index'' \<mapsto> 3])) 3
       = (2, \<lparr>key = ''or_tdb_index'', next_index = 4, indices = [(7, 1), (3, 2), (5, 3)]\<rparr>,
          (\<lambda>_. Map.empty)(7 := [''or_tdb_index'' \<mapsto> 1], 3 := [''or_tdb_index'' \<mapsto> 2], 5 := [''or_tdb_index'' \<mapsto> 3]))"
proof -
  have run: "get_or_add_seq (Indexer ''or_tdb_index'' 1) (\<lambda>_. Map.empty) [7, 3, 5] =
     ([1, 2, 3], \<lparr>key = ''or_tdb_index'', next_index = 4, indices = [(7, 1), (3, 2), (5, 3)]\<rparr>,
      (\<lambda>_. Map.empty)(7 := [''or_tdb_index'' \<mapsto> 1], 3 := [''or_tdb_index'' \<mapsto> 2], 5 := [''or_tdb_index'' \<mapsto> 3]))"
    by (simp add: Indexer_def get_or_add_def)
  have d: "distinct [7, 3, 5::nat]" by simp
  have e: "get_or_add_seq \<lparr>key = ''or_tdb_index'', next_index = 4, indices = [(7, 1), (3, 2), (5, 3)]\<rparr>
         ((\<lambda>_. Map.empty)(7 := [''or_tdb_index'' \<mapsto> 1], 3 := [''or_tdb_index'' \<mapsto> 2], 5 := [''or_tdb_index'' \<mapsto> 3])) []
       = ([], \<lparr>key = ''or_tdb_index'', next_index = 4, indices = [(7, 1), (3, 2), (5, 3)]\<rparr>,
         (\<lambda>_. Map.empty)(7 := [''or_tdb_index'' \<mapsto> 1], 3 := [''or_tdb_index'' \<mapsto> 2], 5 := [''or_tdb_index'' \<mapsto> 3]))"
    by simp
  have i: "1 < length [7, 3, 5::nat]" by simp
  from indexer_ids_in_order[OF d run e i] run show ?thesis by simp
qed

text \<open>
  Claim C8. The shape id that \<^verbatim>\<open>_get_section_index\<close> computes is even exactly when the
  segment is straight or a left curve (radius at most 0), so it is odd for a right curve
  (radius above 0), whatever the indexer holds.
\<close>

theorem section_index_parity:
  "even (fst (get_section_index section_indices ats segment radius)) \<longleftrightarrow> radius \<le> 0"
  by (simp add: get_section_index_def split: prod.splits)

subsection \<open>Tile file names\<close>

lemma bit_fold_or:
  "bit (fold (\<lambda>i t. t OR f i) is (a::int)) n \<longleftrightarrow> bit a n \<or> (\<exists>i\<in>set is. bit (f i) n)"
  by (induction "is" arbitrary: a) (auto simp: bit_or_iff)

lemma bit_tile_piece:
  "bit (push_bit i (((x::int) AND push_bit i 1) OR push_bit 1 (z AND push_bit i 1))) n \<longleftrightarrow>
     (n = 2 * i \<and> bit x i) \<or> (n = 2 * i + 1 \<and> bit z i)"
proof -
  have "bit (push_bit i ((x AND push_bit i 1) OR push_bit 1 (z AND push_bit i 1))) n \<longleftrightarrow>
     i \<le> n \<and> (bit x (n - i) \<and> i \<le> n - i \<and> n - i - i = 0
        \<or> 1 \<le> n - i \<and> bit z (n - i - 1) \<and> i \<le> n - i - 1 \<and> n - i - 1 - i = 0)"
    by (simp only: bit_push_bit_iff_int bit_or_iff bit_and_iff bit_1_iff)
  also have "\<dots> \<longleftrightarrow> (n = 2 * i \<and> bit x i) \<or> (n = 2 * i + 1 \<and> bit z i)"
  proof (cases "n = 2 * i")
    case True
    then show ?thesis by auto
  next
    case False
    note ne = this
    show ?thesis
    proof (cases "n = 2 * i + 1")
      case True
      then show ?thesis by auto
    next
      case False
      have "\<not> (i \<le> n - i \<and> n - i - i = 0)" using ne by arith
      moreover have "\<not> (1 \<le> n - i \<and> i \<le> n - i - 1 \<and> n - i - 1 - i = 0)" using False by arith
      ultimately show ?thesis using ne False by blast
    qed
  qed
  finally show ?thesis .
qed

lemma bit_tile_idx:
  "bit (tile_idx tile_x tile_z) n \<longleftrightarrow>
     (\<exists>i<15. (n = 2 * i + 2 \<and> bit (NOT ((tile_x + 2 ^ 14) XOR (tile_z + 2 ^ 14))) i)
           \<or> (n = 2 * i + 3 \<and> bit (NOT (tile_z + 2 ^ 14)) i))"
proof -
  have "bit (tile_idx tile_x tile_z) n \<longleftrightarrow>
     2 \<le> n \<and> (\<exists>i\<in>set [0..<15]. (n - 2 = 2 * i \<and> bit (NOT ((tile_x + 2 ^ 14) XOR (tile_z + 2 ^ 14))) i)
           \<or> (n - 2 = 2 * i + 1 \<and> bit (NOT (tile_z + 2 ^ 14)) i))"
    unfolding tile_idx_def Let_def bit_push_bit_iff[of 2] bit_fold_or bit_tile_piece
    by (simp add: push_bit_eq_mult)
  also have "\<dots> \<longleftrightarrow> (\<exists>i<15. (n = 2 * i + 2 \<and> bit (NOT ((tile_x + 2 ^ 14) XOR (tile_z + 2 ^ 14))) i)
           \<or> (n = 2 * i + 3 \<and> bit (NOT (tile_z + 2 ^ 14)) i))"
    by (simp only: set_upt atLeast0LessThan lessThan_iff Bex_def) (intro iffI; elim conjE exE; auto)
  finally show ?thesis .
qed

lemma bit_tile_idx_odd:
  "bit (tile_idx tile_x tile_z) (2 * i + 3) \<longleftrightarrow> i < 15 \<and> bit (NOT (tile_z + 2 ^ 14)) i"
proof -
  have e1: "2 * i + 3 = 2 * j + 2 \<longleftrightarrow> False" for j by presburger
  have e2: "2 * i + 3 = 2 * j + 3 \<longleftrightarrow> j = i" for j by auto
  show ?thesis unfolding bit_tile_idx by (simp only: e1 e2) auto
qed

lemma bit_tile_idx_even:
  "bit (tile_idx tile_x tile_z) (2 * i + 2) \<longleftrightarrow>
     i < 15 \<and> bit (NOT ((tile_x + 2 ^ 14) XOR (tile_z + 2 ^ 14))) i"
proof -
  have e1: "2 * i + 2 = 2 * j + 3 \<longleftrightarrow> False" for j by presburger
  have e2: "2 * i + 2 = 2 * j + 2 \<longleftrightarrow> j = i" for j by auto
  show ?thesis unfolding bit_tile_idx by (simp only: e1 e2) auto
qed

lemma bits_below_eq:
  assumes "0 \<le> (a::int)" "a < 2 ^ k" "0 \<le> b" "b < 2 ^ k" "\<forall>i<k. bit a i = bit b i"
  shows "a = b"
proof -
  have "take_bit k a = take_bit k b"
    using assms(5) by (auto simp: bit_eq_iff bit_take_bit_iff)
  then show ?thesis
    using assms(1-4) by (simp add: take_bit_int_eq_self)
qed

lemma tile_idx_injective:
  assumes "- (2 ^ 14) \<le> x1" "x1 < 2 ^ 14" "- (2 ^ 14) \<le> z1" "z1 < 2 ^ 14"
    and "- (2 ^ 14) \<le> x2" "x2 < 2 ^ 14" "- (2 ^ 14) \<le> z2" "z2 < 2 ^ 14"
    and "tile_idx x1 z1 = tile_idx x2 z2"
  shows "x1 = x2 \<and> z1 = z2"
proof -
  have zb: "bit (z1 + 2 ^ 14) i = bit (z2 + 2 ^ 14) i" if "i < 15" for i
  proof -
    have "bit (tile_idx x1 z1) (2 * i + 3) = bit (tile_idx x2 z2) (2 * i + 3)"
      by (simp add: assms(9))
    then show ?thesis using that
      unfolding bit_tile_idx_odd by (simp add: bit_not_iff)
  qed
  have xb: "bit (x1 + 2 ^ 14) i = bit (x2 + 2 ^ 14) i" if "i < 15" for i
  proof -
    have "bit (tile_idx x1 z1) (2 * i + 2) = bit (tile_idx x2 z2) (2 * i + 2)"
      by (simp add: assms(9))
    then have "bit ((x1 + 2 ^ 14) XOR (z1 + 2 ^ 14)) i = bit ((x2 + 2 ^ 14) XOR (z2 + 2 ^ 14)) i"
      using that unfolding bit_tile_idx_even by (simp add: bit_not_iff)
    then show ?thesis using zb[OF that] by (auto simp: bit_xor_iff)
  qed
  have "z1 + 2 ^ 14 = z2 + 2 ^ 14"
    by (rule bits_below_eq[where k = 15]) (use assms zb in auto)
  moreover have "x1 + 2 ^ 14 = x2 + 2 ^ 14"
    by (rule bits_below_eq[where k = 15]) (use assms xb in auto)
  ultimately show ?thesis by simp
qed

lemma digit_val_hex_digit: "d < 16 \<Longrightarrow> digit_val (hex_digit d) = d"
  by (simp add: digit_val_def hex_digit_def)

lemma hex_val_snoc: "hex_val (cs @ [c]) = 16 * hex_val cs + digit_val c"
  by (simp add: hex_val_def)

lemma hex_val_to_hex: "hex_val (to_hex n) = n"
proof (induction n rule: to_hex.induct)
  case (1 n)
  show ?case
  proof (cases "n < 16")
    case True
    then show ?thesis by (subst to_hex.simps) (simp add: hex_val_def digit_val_hex_digit)
  next
    case False
    then have "hex_val (to_hex n) = 16 * hex_val (to_hex (n div 16)) + digit_val (hex_digit (n mod 16))"
      by (subst to_hex.simps) (simp add: hex_val_snoc)
    also have "\<dots> = 16 * (n div 16) + n mod 16"
      using 1[OF False] by (simp add: digit_val_hex_digit)
    finally show ?thesis by simp
  qed
qed

lemma hex_val_zeros: "hex_val (replicate k CHR ''0'' @ cs) = hex_val cs"
proof -
  have "foldl (\<lambda>a c. 16 * a + digit_val c) 0 (replicate k CHR ''0'') = 0"
    by (induction k) (simp_all add: digit_val_def)
  then show ?thesis by (simp add: hex_val_def)
qed

lemma format_08x_inj: "0 \<le> a \<Longrightarrow> 0 \<le> b \<Longrightarrow> format_08x a = format_08x b \<Longrightarrow> a = b"
proof -
  assume a: "0 \<le> a" and b: "0 \<le> b" and e: "format_08x a = format_08x b"
  have "hex_val (format_08x a) = nat a" "hex_val (format_08x b) = nat b"
    using a b by (simp_all add: format_08x_def Let_def hex_val_zeros hex_val_to_hex)
  with e a b show ?thesis by simp
qed

lemma fold_or_nonneg:
  "0 \<le> a \<Longrightarrow> \<forall>i\<in>set ns. 0 \<le> f i \<Longrightarrow> 0 \<le> fold (\<lambda>i t. t OR f i) ns (a::int)"
  by (induction ns arbitrary: a) simp_all

lemma tile_idx_nonneg: "0 \<le> tile_idx tile_x tile_z"
proof -
  have "0 \<le> fold (\<lambda>i t. t OR push_bit i ((x AND push_bit i 1) OR push_bit 1 (z AND push_bit i 1)))
                [0..<15] (0::int)" for x z :: int
    by (rule fold_or_nonneg) simp_all
  then show ?thesis
    unfolding tile_idx_def Let_def by (simp only: push_bit_nonnegative_int_iff)
qed

lemma path_join_inj: "b \<noteq> [] \<Longrightarrow> hd b \<noteq> CHR ''/'' \<Longrightarrow> c \<noteq> [] \<Longrightarrow> hd c \<noteq> CHR ''/'' \<Longrightarrow>
  path_join a b = path_join a c \<Longrightarrow> b = c"
  by (auto simp: path_join_def split: if_splits)

text \<open>
  Claim C10. Two distinct tile coordinates whose components lie in \<open>[-2^14, 2^14)\<close> get
  distinct file-name indices, and so distinct \<^verbatim>\<open>.t\<close> and \<^verbatim>\<open>_y.raw\<close> file names in
  the same directory.
\<close>

theorem tile_file_names_injective:
  assumes "- (2 ^ 14) \<le> x1" "x1 < 2 ^ 14" "- (2 ^ 14) \<le> z1" "z1 < 2 ^ 14"
    and "- (2 ^ 14) \<le> x2" "x2 < 2 ^ 14" "- (2 ^ 14) \<le> z2" "z2 < 2 ^ 14"
    and "(x1, z1) \<noteq> (x2, z2)"
  shows "tile_idx x1 z1 \<noteq> tile_idx x2 z2 \<and>
         fst (tile_file_names directory x1 z1) \<noteq> fst (tile_file_names directory x2 z2) \<and>
         snd (tile_file_names directory x1 z1) \<noteq> snd (tile_file_names directory x2 z2)"
proof -
  have ne: "tile_idx x1 z1 \<noteq> tile_idx x2 z2"
    using tile_idx_injective[OF assms(1-8)] assms(9) by auto
  then have "format_08x (tile_idx x1 z1) \<noteq> format_08x (tile_idx x2 z2)"
    using format_08x_inj[OF tile_idx_nonneg tile_idx_nonneg] by blast
  then have "''-'' @ format_08x (tile_idx x1 z1) \<noteq> ''-'' @ format_08x (tile_idx x2 z2)"
    by simp
  then have "path_join (path_join directory ''tiles'') (''-'' @ format_08x (tile_idx x1 z1))
      \<noteq> path_join (path_join directory ''tiles'') (''-'' @ format_08x (tile_idx x2 z2))"
    using path_join_inj[of "''-'' @ format_08x (tile_idx x1 z1)" "''-'' @ format_08x (tile_idx x2 z2)"]
    by auto
  with ne show ?thesis
    by (simp add: tile_file_names_def Let_def)
qed

theorem tile_file_names_injective_witness:
  "(-5354::int, 14849::int) \<noteq> (-5353, 14849) \<and>
   tile_idx (-5354) 14849 \<noteq> tile_idx (-5353) 14849 \<and>
   fst (tile_file_names ''route'' (-5354) 14849) \<noteq> fst (tile_file_names ''route'' (-5353) 14849) \<and>
   snd (tile_file_names ''route'' (-5354) 14849) \<noteq> snd (tile_file_names ''route'' (-5353) 14849)"
  using tile_file_names_injective[of "-5354" 14849 "-5353" 14849 "''route''"] by simp

subsection \<open>The balance of \<^verbatim>\<open>STFOutput.write\<close>\<close>

lemma write_lines_append:
  "write_lines p acc (ls @ ms) =
     (case write_lines p acc ls of
        (Some e, q, out) \<Rightarrow> (Some e, q, out)
      | (None, q, out) \<Rightarrow> write_lines q out ms)"
  by (induction ls arbitrary: p acc) (simp_all add: Let_def)

lemma write_lines_leading_close:
  "startswith (lstrip l) CHR '')'' \<Longrightarrow> p \<le> 0 \<Longrightarrow> fst (write_lines p acc (l # ls)) = Some AssertionError"
  by (simp add: Let_def)

lemma write_lines_negative:
  "p < 0 \<Longrightarrow> fst (write_lines p acc (l # ls)) = Some AssertionError"
  by (simp add: Let_def)

lemma write_lines_last:
  assumes "write_lines p acc (ls @ [l]) = (None, q, out)"
  shows "(if startswith (lstrip l) CHR '')'' then 1 else 0)
           + count (lstrip l) CHR ''('' - count (lstrip l) CHR '')'' \<le> q"
proof -
  obtain p1 acc1 where a: "write_lines p acc ls = (None, p1, acc1)"
    and b: "write_lines p1 acc1 [l] = (None, q, out)"
    using assms unfolding write_lines_append
    by (cases "write_lines p acc ls") (auto split: option.splits)
  from b show ?thesis
    by (auto simp: Let_def split: if_splits)
qed

lemma write_lines_error: "fst (write_lines p acc ls) = None \<or> fst (write_lines p acc ls) = Some AssertionError"
  by (induction ls arbitrary: p acc) (simp_all add: Let_def)

lemma write_lines_every_line:
  "fst (write_lines p acc ls) = None \<longleftrightarrow>
     (\<forall>pre l post. ls = pre @ l # post \<longrightarrow>
        0 \<le> p + sum_list (map (\<lambda>l. count (lstrip l) CHR ''('' - count (lstrip l) CHR '')'') pre)
              - (if startswith (lstrip l) CHR '')'' then 1 else 0))"
proof (induction ls arbitrary: p acc)
  case Nil
  then show ?case by simp
next
  case (Cons a ls)
  let ?net = "\<lambda>l. count (lstrip l) CHR ''('' - count (lstrip l) CHR '')''"
  let ?ind = "\<lambda>q l. q - (if startswith (lstrip l) CHR '')'' then 1 else (0::int))"
  have split: "(\<forall>pre l post. a # ls = pre @ l # post \<longrightarrow> 0 \<le> ?ind (p + sum_list (map ?net pre)) l)
      \<longleftrightarrow> 0 \<le> ?ind p a \<and> (\<forall>pre l post. ls = pre @ l # post \<longrightarrow> 0 \<le> ?ind (p + ?net a + sum_list (map ?net pre)) l)"
    (is "?L \<longleftrightarrow> ?H \<and> ?T")
  proof
    assume l: ?L
    have "?H" using l[rule_format, of "[]" a ls] by simp
    moreover have "?T"
    proof (intro allI impI)
      fix pre l post assume "ls = pre @ l # post"
      then have "a # ls = (a # pre) @ l # post" by simp
      from l[rule_format, OF this] show "0 \<le> ?ind (p + ?net a + sum_list (map ?net pre)) l"
        by (simp add: algebra_simps)
    qed
    ultimately show "?H \<and> ?T" ..
  next
    assume r: "?H \<and> ?T"
    show ?L
    proof (intro allI impI)
      fix pre l post assume e: "a # ls = pre @ l # post"
      show "0 \<le> ?ind (p + sum_list (map ?net pre)) l"
      proof (cases pre)
        case Nil
        with e r show ?thesis by simp
      next
        case (Cons b pre')
        with e have "b = a" "ls = pre' @ l # post" by simp_all
        with r Cons show ?thesis by (simp add: algebra_simps)
      qed
    qed
  qed
  show ?case
    unfolding split using Cons.IH[of "p + ?net a"]
    by (simp add: Let_def)
qed

lemma write_lines_balance:
  "fst (write_lines p acc ls) = None \<Longrightarrow>
     fst (snd (write_lines p acc ls))
       = p + sum_list (map (\<lambda>l. count (lstrip l) CHR ''('' - count (lstrip l) CHR '')'') ls)"
  by (induction ls arbitrary: p acc) (simp_all add: Let_def split: if_splits)




subsection \<open>Bi-arc interpolation: the arcs join with one tangent\<close>

lemma arc_reflection:
  fixes tx ty wx wy :: real
  assumes unit: "tx\<^sup>2 + ty\<^sup>2 = 1"
    and q: "tx * wy - ty * wx \<noteq> 0" and W: "wx\<^sup>2 + wy\<^sup>2 \<noteq> 0"
  defines "q \<equiv> tx * wy - ty * wx" and "u \<equiv> tx * wx + ty * wy"
  defines "s \<equiv> (wx\<^sup>2 + wy\<^sup>2) / (2 * q)"
  shows "tx * (1 - q / s) - ty * (u / s) = 2 * u * wx / (wx\<^sup>2 + wy\<^sup>2) - tx"
    and "ty * (1 - q / s) + tx * (u / s) = 2 * u * wy / (wx\<^sup>2 + wy\<^sup>2) - ty"
proof -
  have qn: "q \<noteq> 0" using q by (simp add: q_def)
  have lag: "u\<^sup>2 + q\<^sup>2 = wx\<^sup>2 + wy\<^sup>2"
  proof -
    have "u\<^sup>2 + q\<^sup>2 = (tx\<^sup>2 + ty\<^sup>2) * (wx\<^sup>2 + wy\<^sup>2)"
      unfolding u_def q_def by (simp add: power2_eq_square algebra_simps)
    then show ?thesis by (simp add: unit)
  qed
  have s1: "q / s = 2 * q\<^sup>2 / (wx\<^sup>2 + wy\<^sup>2)" and s2: "u / s = 2 * q * u / (wx\<^sup>2 + wy\<^sup>2)"
    using qn W by (simp_all add: s_def power2_eq_square)
  have wxe: "wx = u * tx - q * ty" and wye: "wy = u * ty + q * tx"
  proof -
    have "u * tx - q * ty = wx * (tx\<^sup>2 + ty\<^sup>2)" "u * ty + q * tx = wy * (tx\<^sup>2 + ty\<^sup>2)"
      unfolding u_def q_def by (simp_all add: power2_eq_square algebra_simps)
    then show "wx = u * tx - q * ty" "wy = u * ty + q * tx" by (simp_all add: unit)
  qed
  have g1: "(a * (1 - A / D) - b * (B / D)) * D = a * D - A * a - B * b"
    and g2: "(a * (1 - A / D) + b * (B / D)) * D = a * D - A * a + B * b"
    and g3: "X * D = Y \<Longrightarrow> X = Y' / D - a \<longleftrightarrow> Y = Y' - a * D"
    if "D \<noteq> 0" for a b A B D X Y Y' :: real
    using that by (auto simp: field_simps)
  have "(tx * (1 - q / s) - ty * (u / s)) * (wx\<^sup>2 + wy\<^sup>2) = 2 * u * wx - tx * (wx\<^sup>2 + wy\<^sup>2)"
  proof -
    have "(tx * (1 - q / s) - ty * (u / s)) * (wx\<^sup>2 + wy\<^sup>2)
        = tx * (wx\<^sup>2 + wy\<^sup>2) - 2 * q\<^sup>2 * tx - 2 * q * u * ty"
      unfolding s1 s2 by (rule g1[OF W])
    also have "\<dots> = tx * (u\<^sup>2 + q\<^sup>2) - 2 * q\<^sup>2 * tx - 2 * q * u * ty"
      by (simp add: lag)
    also have "\<dots> = 2 * u * (u * tx - q * ty) - tx * (u\<^sup>2 + q\<^sup>2)"
      by (simp add: power2_eq_square algebra_simps)
    also have "\<dots> = 2 * u * wx - tx * (wx\<^sup>2 + wy\<^sup>2)"
      using wxe lag by simp
    finally show ?thesis .
  qed
  then show "tx * (1 - q / s) - ty * (u / s) = 2 * u * wx / (wx\<^sup>2 + wy\<^sup>2) - tx"
    using g3[OF W] by blast
  have "(ty * (1 - q / s) + tx * (u / s)) * (wx\<^sup>2 + wy\<^sup>2) = 2 * u * wy - ty * (wx\<^sup>2 + wy\<^sup>2)"
  proof -
    have "(ty * (1 - q / s) + tx * (u / s)) * (wx\<^sup>2 + wy\<^sup>2)
        = ty * (wx\<^sup>2 + wy\<^sup>2) - 2 * q\<^sup>2 * ty + 2 * q * u * tx"
      unfolding s1 s2 by (rule g2[OF W])
    also have "\<dots> = ty * (u\<^sup>2 + q\<^sup>2) - 2 * q\<^sup>2 * ty + 2 * q * u * tx"
      by (simp add: lag)
    also have "\<dots> = 2 * u * (u * ty + q * tx) - ty * (u\<^sup>2 + q\<^sup>2)"
      by (simp add: power2_eq_square algebra_simps)
    also have "\<dots> = 2 * u * wy - ty * (wx\<^sup>2 + wy\<^sup>2)"
      using wye lag by simp
    finally show ?thesis .
  qed
  then show "ty * (1 - q / s) + tx * (u / s) = 2 * u * wy / (wx\<^sup>2 + wy\<^sup>2) - ty"
    using g3[OF W] by blast
qed

lemma signed_arccos:
  fixes C S d :: real
  assumes cs: "C\<^sup>2 + S\<^sup>2 = 1"
  defines "th0 \<equiv> (if d \<le> (0::real) then arccos C - 2 * pi else arccos C)"
  defines "th \<equiv> (if S \<le> 0 then - th0 else th0)"
  shows "cos th = C \<and> sin th = S"
proof -
  have "C\<^sup>2 \<le> 1" using cs by (smt (verit) zero_le_power2)
  then have b: "\<bar>C\<bar> \<le> 1" by (simp add: abs_square_le_1)
  have c0: "cos (arccos C) = C" using b by (simp add: cos_arccos_abs)
  have "sin (arccos C) = sqrt (1 - C\<^sup>2)" using b by (simp add: sin_arccos_abs)
  also have "1 - C\<^sup>2 = S\<^sup>2" using cs by simp
  finally have s0: "sin (arccos C) = \<bar>S\<bar>" by simp
  have per: "cos (x - 2 * pi) = cos x" "sin (x - 2 * pi) = sin x" for x :: real
    using cos_periodic[of "x - 2 * pi"] sin_periodic[of "x - 2 * pi"] by simp_all
  have c1: "cos th0 = C" and s1: "sin th0 = \<bar>S\<bar>"
    using c0 s0 by (simp_all add: th0_def per)
  show ?thesis
    using c1 s1 by (simp add: th_def)
qed

lemma calculate_arc_angle:
  assumes arc: "calculate_arc (Vector mx my) d (Vector px py) (Vector tx ty) = Inr (r, th)"
    and unit: "tx\<^sup>2 + ty\<^sup>2 = 1"
  defines "wx \<equiv> mx - px" and "wy \<equiv> my - py"
  defines "q \<equiv> tx * wy - ty * wx" and "u \<equiv> tx * wx + ty * wy"
  defines "s \<equiv> (wx\<^sup>2 + wy\<^sup>2) / (2 * q)"
  shows "q \<noteq> 0 \<and> wx\<^sup>2 + wy\<^sup>2 \<noteq> 0 \<and> cos th = 1 - q / s \<and> sin th = u / s"
proof -
  have den: "2 * v_dot (ortho (Vector tx ty)) (v_sub (Vector mx my) (Vector px py)) = 2 * q"
    by (simp add: v_dot_def ortho_def v_sub_def q_def wx_def wy_def)
  have ww: "v_dot (v_sub (Vector mx my) (Vector px py)) (v_sub (Vector mx my) (Vector px py)) = wx\<^sup>2 + wy\<^sup>2"
    by (simp add: v_dot_def v_sub_def wx_def wy_def power2_eq_square)
  have qn: "q \<noteq> 0"
    using arc unfolding calculate_arc_def Let_def den by (auto split: if_splits)
  have sn: "s \<noteq> 0"
    using arc qn unfolding calculate_arc_def Let_def den ww s_def[symmetric]
    by (auto simp: v_truediv_def split: if_splits)
  then have W: "wx\<^sup>2 + wy\<^sup>2 \<noteq> 0" by (auto simp: s_def)
  define opx where "opx = ty * s / \<bar>s\<bar>"
  define opy where "opy = - tx * s / \<bar>s\<bar>"
  define omx where "omx = (wx + ty * s) / \<bar>s\<bar>"
  define omy where "omy = (wy - tx * s) / \<bar>s\<bar>"
  have op: "v_truediv (v_sub (Vector px py) (v_add (Vector px py) (v_scale (ortho (Vector tx ty)) s))) \<bar>s\<bar>
      = Inr (Vector opx opy)"
    using sn by (simp add: v_truediv_def v_sub_def v_add_def v_scale_def ortho_def opx_def opy_def)
  have om: "v_truediv (v_sub (Vector mx my) (v_add (Vector px py) (v_scale (ortho (Vector tx ty)) s))) \<bar>s\<bar>
      = Inr (Vector omx omy)"
    using sn by (simp add: v_truediv_def v_sub_def v_add_def v_scale_def ortho_def omx_def omy_def
        wx_def wy_def algebra_simps)
  have k: "x / \<bar>s\<bar> * (y / \<bar>s\<bar>) = x * y / (s * s)" for x y :: real
    by simp
  have C: "v_dot (Vector opx opy) (Vector omx omy) = 1 - q / s"
  proof -
    have "v_dot (Vector opx opy) (Vector omx omy) = (ty * s * (wx + ty * s) - tx * s * (wy - tx * s)) / (s * s)"
      unfolding v_dot_def opx_def opy_def omx_def omy_def vector.sel k
      by (simp add: diff_divide_distrib)
    also have "ty * s * (wx + ty * s) - tx * s * (wy - tx * s) = s * s * (tx\<^sup>2 + ty\<^sup>2) - s * q"
      by (simp add: q_def power2_eq_square algebra_simps)
    also have "\<dots> = s * s - s * q" by (simp add: unit)
    also have "(s * s - s * q) / (s * s) = 1 - q / s"
      using sn by (simp add: field_simps)
    finally show ?thesis .
  qed
  have S: "v_matmul (Vector opx opy) (Vector omx omy) = u / s"
  proof -
    have "v_matmul (Vector opx opy) (Vector omx omy) = (ty * s * (wy - tx * s) + tx * s * (wx + ty * s)) / (s * s)"
      unfolding v_matmul_def opx_def opy_def omx_def omy_def vector.sel k
      by (simp add: add_divide_distrib)
    also have "ty * s * (wy - tx * s) + tx * s * (wx + ty * s) = s * u"
      by (simp add: u_def algebra_simps)
    also have "s * u / (s * s) = u / s"
      using sn by simp
    finally show ?thesis .
  qed
  have lag: "u\<^sup>2 + q\<^sup>2 = wx\<^sup>2 + wy\<^sup>2"
  proof -
    have "u\<^sup>2 + q\<^sup>2 = (tx\<^sup>2 + ty\<^sup>2) * (wx\<^sup>2 + wy\<^sup>2)"
      unfolding u_def q_def by (simp add: power2_eq_square algebra_simps)
    then show ?thesis by (simp add: unit)
  qed
  have cs: "(1 - q / s)\<^sup>2 + (u / s)\<^sup>2 = 1"
  proof -
    have "(1 - q / s)\<^sup>2 + (u / s)\<^sup>2 = 1 + (u\<^sup>2 + q\<^sup>2 - 2 * q * s) / s\<^sup>2"
      using sn by (simp add: power2_eq_square field_simps)
    also have "2 * q * s = wx\<^sup>2 + wy\<^sup>2" using qn by (simp add: s_def)
    finally show ?thesis by (simp add: lag)
  qed
  have th: "th = (if u / s \<le> 0 then - (if d \<le> 0 then arccos (1 - q / s) - 2 * pi else arccos (1 - q / s))
                  else (if d \<le> 0 then arccos (1 - q / s) - 2 * pi else arccos (1 - q / s)))"
    using arc qn unfolding calculate_arc_def Let_def den ww s_def[symmetric] op om
    by (simp add: C S split: if_splits)
  show ?thesis
    using signed_arccos[OF cs, of d] qn W unfolding th by simp
qed

lemma biarc_arcs_join:
  assumes arcs: "biarc_arcs (Vector p1x p1y) (Vector t1x t1y) (Vector p2x p2y) (Vector t2x t2y) d
      = Inr (r1, th1, r2, th2)"
    and unit1: "t1x\<^sup>2 + t1y\<^sup>2 = 1" and unit2: "t2x\<^sup>2 + t2y\<^sup>2 = 1"
    and Q: "((p2x - p1x)\<^sup>2 + (p2y - p1y)\<^sup>2)
        - 2 * d * ((p2x - p1x) * (t1x + t2x) + (p2y - p1y) * (t1y + t2y))
        - 2 * d\<^sup>2 * (1 - (t1x * t2x + t1y * t2y)) = 0"
  shows "t1x * cos th1 - t1y * sin th1 = t2x * cos th2 - t2y * sin th2 \<and>
         t1y * cos th1 + t1x * sin th1 = t2y * cos th2 + t2x * sin th2"
proof -
  define mx where "mx = (p1x + p2x + (t1x - t2x) * d) * 0.5"
  define my where "my = (p1y + p2y + (t1y - t2y) * d) * 0.5"
  have pm: "v_scale (v_add (v_add (Vector p1x p1y) (Vector p2x p2y))
      (v_scale (v_sub (Vector t1x t1y) (Vector t2x t2y)) d)) 0.5 = Vector mx my"
    by (simp add: v_scale_def v_add_def v_sub_def mx_def my_def)
  obtain r1' r2' where a1: "calculate_arc (Vector mx my) d (Vector p1x p1y) (Vector t1x t1y) = Inr (r1', th1)"
    and a2: "calculate_arc (Vector mx my) d (Vector p2x p2y) (Vector t2x t2y) = Inr (r2', th2)"
    using arcs unfolding biarc_arcs_def Let_def pm
    by (auto split: sum.splits prod.splits)
  define w1x where "w1x = mx - p1x"
  define w1y where "w1y = my - p1y"
  define w2x where "w2x = mx - p2x"
  define w2y where "w2y = my - p2y"
  define u1 where "u1 = t1x * w1x + t1y * w1y"
  define u2 where "u2 = t2x * w2x + t2y * w2y"
  define W1 where "W1 = w1x\<^sup>2 + w1y\<^sup>2"
  define W2 where "W2 = w2x\<^sup>2 + w2y\<^sup>2"
  note A1 = calculate_arc_angle[OF a1 unit1, folded w1x_def w1y_def, folded u1_def W1_def]
  note A2 = calculate_arc_angle[OF a2 unit2, folded w2x_def w2y_def, folded u2_def W2_def]
  have W1n: "W1 \<noteq> 0" and W2n: "W2 \<noteq> 0" using A1 A2 by simp_all
  have R1: "t1x * cos th1 - t1y * sin th1 = 2 * u1 * w1x / W1 - t1x"
       "t1y * cos th1 + t1x * sin th1 = 2 * u1 * w1y / W1 - t1y"
    using arc_reflection[OF unit1, of w1y w1x] A1 unfolding u1_def W1_def by simp_all
  have R2: "t2x * cos th2 - t2y * sin th2 = 2 * u2 * w2x / W2 - t2x"
       "t2y * cos th2 + t2x * sin th2 = 2 * u2 * w2y / W2 - t2y"
    using arc_reflection[OF unit2, of w2y w2x] A2 unfolding u2_def W2_def by simp_all
  have h1x: "2 * w1x = (p2x - p1x) + d * (t1x - t2x)" and h1y: "2 * w1y = (p2y - p1y) + d * (t1y - t2y)"
    and h2x: "2 * w2x = - (p2x - p1x) + d * (t1x - t2x)" and h2y: "2 * w2y = - (p2y - p1y) + d * (t1y - t2y)"
    unfolding w1x_def w1y_def w2x_def w2y_def mx_def my_def by (simp_all add: field_simps)
  have "4 * (W1 - 2 * d * u1) = (2 * w1x)\<^sup>2 + (2 * w1y)\<^sup>2 - 4 * d * (t1x * (2 * w1x) + t1y * (2 * w1y))"
    unfolding W1_def u1_def by (simp add: power2_eq_square algebra_simps)
  also have "\<dots> =
      ((p2x - p1x)\<^sup>2 + (p2y - p1y)\<^sup>2)
        - 2 * d * ((p2x - p1x) * (t1x + t2x) + (p2y - p1y) * (t1y + t2y))
        - 2 * d\<^sup>2 * (1 - (t1x * t2x + t1y * t2y))
        + d\<^sup>2 * ((t2x\<^sup>2 + t2y\<^sup>2) - 1) - 3 * d\<^sup>2 * ((t1x\<^sup>2 + t1y\<^sup>2) - 1)"
    unfolding h1x h1y by (simp add: power2_eq_square algebra_simps)
  finally have e1: "4 * (W1 - 2 * d * u1) =
      ((p2x - p1x)\<^sup>2 + (p2y - p1y)\<^sup>2)
        - 2 * d * ((p2x - p1x) * (t1x + t2x) + (p2y - p1y) * (t1y + t2y))
        - 2 * d\<^sup>2 * (1 - (t1x * t2x + t1y * t2y))
        + d\<^sup>2 * ((t2x\<^sup>2 + t2y\<^sup>2) - 1) - 3 * d\<^sup>2 * ((t1x\<^sup>2 + t1y\<^sup>2) - 1)" .
  have "4 * (W2 + 2 * d * u2) = (2 * w2x)\<^sup>2 + (2 * w2y)\<^sup>2 + 4 * d * (t2x * (2 * w2x) + t2y * (2 * w2y))"
    unfolding W2_def u2_def by (simp add: power2_eq_square algebra_simps)
  also have "\<dots> =
      ((p2x - p1x)\<^sup>2 + (p2y - p1y)\<^sup>2)
        - 2 * d * ((p2x - p1x) * (t1x + t2x) + (p2y - p1y) * (t1y + t2y))
        - 2 * d\<^sup>2 * (1 - (t1x * t2x + t1y * t2y))
        + d\<^sup>2 * ((t1x\<^sup>2 + t1y\<^sup>2) - 1) - 3 * d\<^sup>2 * ((t2x\<^sup>2 + t2y\<^sup>2) - 1)"
    unfolding h2x h2y by (simp add: power2_eq_square algebra_simps)
  finally have e2: "4 * (W2 + 2 * d * u2) =
      ((p2x - p1x)\<^sup>2 + (p2y - p1y)\<^sup>2)
        - 2 * d * ((p2x - p1x) * (t1x + t2x) + (p2y - p1y) * (t1y + t2y))
        - 2 * d\<^sup>2 * (1 - (t1x * t2x + t1y * t2y))
        + d\<^sup>2 * ((t1x\<^sup>2 + t1y\<^sup>2) - 1) - 3 * d\<^sup>2 * ((t2x\<^sup>2 + t2y\<^sup>2) - 1)" .
  have W1e: "W1 = 2 * d * u1" using e1 Q unit1 unit2 by simp
  have W2e: "W2 = - (2 * d * u2)" using e2 Q unit1 unit2 by simp
  have dn: "d \<noteq> 0" and u1n: "u1 \<noteq> 0" and u2n: "u2 \<noteq> 0"
    using W1n W2n W1e W2e by auto
  have f1: "2 * u1 * z / W1 = z / d" for z
    unfolding W1e using dn u1n by simp
  have f2: "2 * u2 * z / W2 = - z / d" for z
    unfolding W2e using dn u2n by (simp add: field_simps)
  have sx: "w1x + w2x = d * (t1x - t2x)" and sy: "w1y + w2y = d * (t1y - t2y)"
    using h1x h2x h1y h2y by simp_all
  have "w1x / d - t1x = - w2x / d - t2x"
  proof -
    have "w1x / d + w2x / d = t1x - t2x"
      using sx dn by (simp add: add_divide_distrib[symmetric])
    then show ?thesis by simp
  qed
  moreover have "w1y / d - t1y = - w2y / d - t2y"
  proof -
    have "w1y / d + w2y / d = t1y - t2y"
      using sy dn by (simp add: add_divide_distrib[symmetric])
    then show ?thesis by simp
  qed
  ultimately show ?thesis
    unfolding R1 R2 f1 f2 by simp
qed

lemma same_direction:
  assumes "cos x = cos y" "sin x = sin y"
  shows "\<exists>k::int. x = y + 2 * pi * of_int k"
proof -
  have "cos (x - y) = 1"
    using assms by (simp add: cos_diff)
  then obtain n :: int where "x - y = of_int n * 2 * pi"
    unfolding cos_one_2pi_int by blast
  then have "x = y + 2 * pi * of_int n" by (simp add: algebra_simps)
  then show ?thesis ..
qed

lemma biarc_offset_quadratic:
  fixes vv vt c :: real
  assumes "c \<noteq> 0" "0 \<le> vt\<^sup>2 + 2 * c * vv"
  defines "d \<equiv> (- vt + sqrt (vt\<^sup>2 + 2 * c * vv)) / (2 * c)"
  shows "vv - 2 * d * vt - 2 * d\<^sup>2 * c = 0"
proof -
  define D where "D = sqrt (vt\<^sup>2 + 2 * c * vv)"
  have DD: "D * D = vt\<^sup>2 + 2 * c * vv"
    using assms(2) by (simp add: D_def)
  have d: "2 * c * d = D - vt"
    using assms(1) by (simp add: d_def D_def)
  have "2 * c * (vv - 2 * d * vt - 2 * d\<^sup>2 * c) = 2 * c * vv - 2 * (2 * c * d) * vt - (2 * c * d)\<^sup>2"
    by (simp add: power2_eq_square algebra_simps)
  also have "\<dots> = 2 * c * vv - 2 * (D - vt) * vt - (D - vt)\<^sup>2"
    unfolding d ..
  also have "\<dots> = 2 * c * vv + vt\<^sup>2 - D * D"
    by (simp add: power2_eq_square algebra_simps)
  also have "\<dots> = 0" by (simp add: DD)
  finally show ?thesis using assms(1) by simp
qed

text \<open>
  In exact arithmetic the two arcs join with one tangent. The tangents are the unit
  vectors \<open>polar a1\<close> (at \<open>p1\<close>, along the path) and
  \<open>polar a2\<close> (at \<open>p2\<close>, leaving the path), as \<^verbatim>\<open>create_biarcs\<close> passes them. The
  angles are measured counter-clockwise from \<open>p1\<close> and from \<open>p2\<close>, so the first arc
  reaches the join point with direction \<open>a1 + theta1\<close> and the second arc passes the join
  point with direction \<open>a2 + theta2\<close>. Whenever \<^verbatim>\<open>biarc_interpolation\<close> returns, in the
  general case and in the case of parallel tangents, the two directions are equal up to
  a multiple of \<open>2 * pi\<close>. (For \<open>p1 = p2\<close> the function raises.)
\<close>

theorem biarc_c1_continuous:
  assumes "biarc_interpolation p1 (polar a1 1) p2 (polar a2 1) = Inr (r1, theta1, r2, theta2)"
  shows "\<exists>k::int. a1 + theta1 = a2 + theta2 + 2 * pi * of_int k"
proof -
  obtain p1x p1y p2x p2y where p: "p1 = Vector p1x p1y" "p2 = Vector p2x p2y"
    by (cases p1; cases p2) auto
  define vv where "vv = (p2x - p1x)\<^sup>2 + (p2y - p1y)\<^sup>2"
  define vt where "vt = (p2x - p1x) * (cos a1 + cos a2) + (p2y - p1y) * (sin a1 + sin a2)"
  define c where "c = 1 - (cos a1 * cos a2 + sin a1 * sin a2)"
  have pol: "polar a 1 = Vector (cos a) (sin a)" for a by (simp add: polar_def)
  have vv: "v_dot (v_sub p2 p1) (v_sub p2 p1) = vv"
    by (simp add: p v_dot_def v_sub_def vv_def power2_eq_square)
  have vt: "v_dot (v_sub p2 p1) (v_add (polar a1 1) (polar a2 1)) = vt"
    by (simp add: p pol v_dot_def v_sub_def v_add_def vt_def)
  have c: "1 - v_dot (polar a1 1) (polar a2 1) = c"
    by (simp add: pol v_dot_def c_def)
  note run = assms[unfolded biarc_interpolation_def Let_def vv vt c]
  have join: "\<exists>k::int. a1 + theta1 = a2 + theta2 + 2 * pi * of_int k"
    if arcs: "biarc_arcs p1 (polar a1 1) p2 (polar a2 1) d = Inr (r1, theta1, r2, theta2)"
      and Q: "vv - 2 * d * vt - 2 * d\<^sup>2 * c = 0" for d
  proof -
    have "cos a1 * cos theta1 - sin a1 * sin theta1 = cos a2 * cos theta2 - sin a2 * sin theta2 \<and>
          sin a1 * cos theta1 + cos a1 * sin theta1 = sin a2 * cos theta2 + cos a2 * sin theta2"
      by (rule biarc_arcs_join[OF arcs[unfolded p pol]]) (use Q in \<open>simp_all add: vv_def vt_def c_def\<close>)
    then have "cos (a1 + theta1) = cos (a2 + theta2)" "sin (a1 + theta1) = sin (a2 + theta2)"
      by (simp_all add: cos_add sin_add)
    then show ?thesis by (rule same_direction)
  qed
  show ?thesis
  proof (cases "2 * c = 0")
    case True
    then have "cos (a1 - a2) = 1" by (simp add: c_def cos_diff)
    then obtain n :: int where n: "a1 - a2 = of_int n * 2 * pi"
      unfolding cos_one_2pi_int by blast
    show ?thesis
    proof (cases "vt = 0")
      case vt0: True
      from run True vt0 have "(theta1 = pi \<and> theta2 = - pi) \<or> (theta1 = - pi \<and> theta2 = pi)"
        by (auto split: if_splits)
      then show ?thesis
      proof
        assume "theta1 = pi \<and> theta2 = - pi"
        then have "a1 + theta1 = a2 + theta2 + 2 * pi * of_int (n + 1)"
          using n by (simp add: algebra_simps)
        then show ?thesis ..
      next
        assume "theta1 = - pi \<and> theta2 = pi"
        then have "a1 + theta1 = a2 + theta2 + 2 * pi * of_int (n - 1)"
          using n by (simp add: algebra_simps)
        then show ?thesis ..
      qed
    next
      case False
      from run True False
      have arcs: "biarc_arcs p1 (polar a1 1) p2 (polar a2 1) (0.5 * vv / vt) = Inr (r1, theta1, r2, theta2)"
        by simp
      have "vv - 2 * (0.5 * vv / vt) * vt - 2 * (0.5 * vv / vt)\<^sup>2 * c = 0"
        using True False by simp
      from join[OF arcs this] show ?thesis .
    qed
  next
    case False
    from run False have nn: "\<not> vt\<^sup>2 + 2 * c * vv < 0"
      and arcs: "biarc_arcs p1 (polar a1 1) p2 (polar a2 1)
          ((- vt + sqrt (vt\<^sup>2 + 2 * c * vv)) / (2 * c)) = Inr (r1, theta1, r2, theta2)"
      by (auto split: if_splits)
    have "vv - 2 * ((- vt + sqrt (vt\<^sup>2 + 2 * c * vv)) / (2 * c)) * vt
        - 2 * ((- vt + sqrt (vt\<^sup>2 + 2 * c * vv)) / (2 * c))\<^sup>2 * c = 0"
      by (rule biarc_offset_quadratic) (use False nn in auto)
    from join[OF arcs this] show ?thesis .
  qed
qed

lemma biarc_general_example:
  "biarc_interpolation (Vector 0 0) (polar 0 1) (Vector 0 2) (polar pi 1)
     = Inr (Radius 1, pi / 2, Radius 1, - (pi / 2))"
proof -
  have sq: "sqrt 16 = 4"
    by (rule real_sqrt_unique) simp_all
  show ?thesis
    by (simp add: biarc_interpolation_def biarc_arcs_def calculate_arc_def Let_def polar_def
        v_sub_def v_add_def v_dot_def v_scale_def v_matmul_def v_truediv_def ortho_def sq)
qed

lemma biarc_parallel_example:
  "biarc_interpolation (Vector 0 0) (polar 0 1) (Vector 0 1) (polar 0 1)
     = Inr (Centre (Vector 0 0.25), pi, Centre (Vector 0 0.75), - pi)"
  by (simp add: biarc_interpolation_def Let_def polar_def
      v_sub_def v_add_def v_dot_def v_scale_def v_matmul_def)

theorem biarc_c1_continuous_witness:
  "biarc_interpolation (Vector 0 0) (polar 0 1) (Vector 0 2) (polar pi 1)
     = Inr (Radius 1, pi / 2, Radius 1, - (pi / 2)) \<and>
   (\<exists>k::int. 0 + pi / 2 = pi + - (pi / 2) + 2 * pi * of_int k) \<and>
   biarc_interpolation (Vector 0 0) (polar 0 1) (Vector 0 1) (polar 0 1)
     = Inr (Centre (Vector 0 0.25), pi, Centre (Vector 0 0.75), - pi) \<and>
   (\<exists>k::int. 0 + pi = 0 + - pi + 2 * pi * of_int k)"
  using biarc_c1_continuous[OF biarc_general_example] biarc_c1_continuous[OF biarc_parallel_example]
    biarc_general_example biarc_parallel_example
  by simp

subsection \<open>Rounding to a double\<close>

lemma fl_eval:
  fixes j :: nat and n :: int
  assumes lo: "2 ^ 52 \<le> \<bar>x\<bar> * 2 ^ j" and hi: "\<bar>x\<bar> * 2 ^ j < 2 ^ 53"
    and near: "\<bar>x * 2 ^ j - of_int n\<bar> < 1 / 2 \<or> (\<bar>x * 2 ^ j - of_int n\<bar> = 1 / 2 \<and> even n)"
  shows "fl x = of_int n / 2 ^ j"
proof -
  have x0: "x \<noteq> 0" using lo by auto
  have p: "(2::real) powr (of_int (52 - int j)) = 2 ^ 52 / 2 ^ j"
    by (simp add: powr_diff powr_realpow[symmetric])
  have p1: "(2::real) powr (of_int (52 - int j) + 1) = 2 ^ 53 / 2 ^ j"
    by (simp add: powr_diff powr_add powr_realpow[symmetric])
  have "2 powr (of_int (52 - int j)) \<le> \<bar>x\<bar>" "\<bar>x\<bar> < 2 powr (of_int (52 - int j) + 1)"
    unfolding p p1 using lo hi by (simp_all add: field_simps)
  then have e: "\<lfloor>log 2 \<bar>x\<bar>\<rfloor> = 52 - int j"
    using x0 by (subst floor_log_eq_powr_iff) simp_all
  have u: "(2::real) powr (of_int (52 - int j) - 52) = 1 / 2 ^ j"
    by (simp add: powr_minus powr_realpow[symmetric] field_simps)
  define q where "q = x * 2 ^ j"
  have r: "(if q - of_int \<lfloor>q\<rfloor> < 1 / 2 \<or> (q - of_int \<lfloor>q\<rfloor> = 1 / 2 \<and> even \<lfloor>q\<rfloor>)
            then of_int \<lfloor>q\<rfloor> else of_int \<lfloor>q\<rfloor> + 1) = (of_int n :: real)"
  proof -
    from near have "\<bar>q - of_int n\<bar> < 1 / 2 \<or> (\<bar>q - of_int n\<bar> = 1 / 2 \<and> even n)"
      by (simp add: q_def)
    then consider "0 \<le> q - of_int n" "q - of_int n < 1 / 2"
      | "q - of_int n < 0" "- (1 / 2) < q - of_int n"
      | "q - of_int n = 1 / 2" "even n"
      | "q - of_int n = - (1 / 2)" "even n"
      by (auto simp: abs_if split: if_splits)
    then show ?thesis
    proof cases
      case 1
      then have "\<lfloor>q\<rfloor> = n" by (intro floor_unique) simp_all
      with 1 show ?thesis by simp
    next
      case 2
      then have f: "\<lfloor>q\<rfloor> = n - 1" by (intro floor_unique) simp_all
      then show ?thesis using 2 by simp
    next
      case 3
      then have "\<lfloor>q\<rfloor> = n" by (intro floor_unique) simp_all
      with 3 show ?thesis by simp
    next
      case 4
      then have f: "\<lfloor>q\<rfloor> = n - 1" by (intro floor_unique) simp_all
      then show ?thesis using 4 by simp
    qed
  qed
  have xq: "x / (1 / 2 ^ j) = q" by (simp add: q_def)
  show ?thesis
    unfolding fl_def Let_def e u xq r using x0 by simp
qed

lemma fl_zero [simp]: "fl 0 = 0"
  by (simp add: fl_def)

lemma fl_sqrt_eval:
  fixes j :: nat and n :: int
  assumes "0 \<le> x" "0 < n"
    and lo: "(2 ^ 52)\<^sup>2 \<le> x * 4 ^ j" and hi: "x * 4 ^ j < (2 ^ 53)\<^sup>2"
    and below: "(of_int n - 1 / 2)\<^sup>2 < x * 4 ^ j" and above: "x * 4 ^ j < (of_int n + 1 / 2)\<^sup>2"
  shows "fl (sqrt x) = of_int n / 2 ^ j"
proof -
  have s: "sqrt x * 2 ^ j = sqrt (x * 4 ^ j)"
  proof -
    have "(4::real) ^ j = (2 * 2) ^ j" by simp
    also have "\<dots> = (2 ^ j)\<^sup>2" by (simp only: power_mult_distrib power2_eq_square)
    finally have "(4::real) ^ j = (2 ^ j)\<^sup>2" .
    then show ?thesis by (simp add: real_sqrt_mult)
  qed
  have a: "\<bar>sqrt x\<bar> = sqrt x" using assms(1) by simp
  show ?thesis
  proof (rule fl_eval)
    show "2 ^ 52 \<le> \<bar>sqrt x\<bar> * 2 ^ j"
      unfolding a s using lo by (intro real_le_rsqrt)
    show "\<bar>sqrt x\<bar> * 2 ^ j < 2 ^ 53"
      unfolding a s using hi by (intro real_less_lsqrt) simp_all
    have "of_int n - 1 / 2 < sqrt (x * 4 ^ j)"
      using below by (intro real_less_rsqrt)
    moreover have "sqrt (x * 4 ^ j) < of_int n + 1 / 2"
      using above assms(2) by (intro real_less_lsqrt) simp_all
    ultimately show "\<bar>sqrt x * 2 ^ j - of_int n\<bar> < 1 / 2 \<or> (\<bar>sqrt x * 2 ^ j - of_int n\<bar> = 1 / 2 \<and> even n)"
      unfolding s by (simp add: abs_if)
  qed
qed

subsection \<open>The roundings of one run\<close>

lemma fl_value_1: "fl (1) = 1"
  using fl_eval[of "1" 52 "4503599627370496"] by simp

lemma fl_value_2: "fl (20282409603651666698129051269883 / 20282409603651670423947251286016) = 4503599627370495 / 4503599627370496"
  using fl_eval[of "20282409603651666698129051269883 / 20282409603651670423947251286016" 53 "9007199254740990"] by simp

lemma fl_value_3: "fl (- 1) = - 1"
  using fl_eval[of "- 1" 52 "- 4503599627370496"] by simp

lemma fl_value_4: "fl (4503599627370495 / 4503599627370496) = 4503599627370495 / 4503599627370496"
  using fl_eval[of "4503599627370495 / 4503599627370496" 53 "9007199254740990"] by simp

lemma fl_value_5: "fl (- (1 / 4503599627370496)) = - (1 / 4503599627370496)"
  using fl_eval[of "- (1 / 4503599627370496)" 104 "- 4503599627370496"] by simp

lemma fl_value_6: "fl (- (3725818200016133 / 20282409603651670423947251286016)) = - (3725818200016133 / 20282409603651670423947251286016)"
  using fl_eval[of "- (3725818200016133 / 20282409603651670423947251286016)" 105 "- 7451636400032266"] by simp

lemma fl_value_7: "fl (20282409603651674149765451302149 / 20282409603651670423947251286016) = 4503599627370497 / 4503599627370496"
  using fl_eval[of "20282409603651674149765451302149 / 20282409603651670423947251286016" 52 "4503599627370497"] by simp

lemma fl_value_8: "fl (4503599627370497 / 2251799813685248) = 4503599627370497 / 2251799813685248"
  using fl_eval[of "4503599627370497 / 2251799813685248" 51 "4503599627370497"] by simp

lemma fl_value_9: "fl (1 / 20282409603651670423947251286016) = 1 / 20282409603651670423947251286016"
  using fl_eval[of "1 / 20282409603651670423947251286016" 156 "4503599627370496"] by simp

lemma fl_value_10: "fl (2) = 2"
  using fl_eval[of "2" 51 "4503599627370496"] by simp

lemma fl_value_11: "fl (4503599627370497 / 1125899906842624) = 4503599627370497 / 1125899906842624"
  using fl_eval[of "4503599627370497 / 1125899906842624" 50 "4503599627370497"] by simp

lemma fl_value_12: "fl (81129638414606699710187514626049 / 20282409603651670423947251286016) = 4503599627370497 / 1125899906842624"
  using fl_eval[of "81129638414606699710187514626049 / 20282409603651670423947251286016" 50 "4503599627370497"] by simp

lemma fl_value_13: "fl (1 / 4503599627370496) = 1 / 4503599627370496"
  using fl_eval[of "1 / 4503599627370496" 104 "4503599627370496"] by simp

lemma fl_value_14: "fl (sqrt (4503599627370497 / 1125899906842624)) = 2"
  using fl_sqrt_eval[of "4503599627370497 / 1125899906842624" "4503599627370496" 51] by (simp add: power2_eq_square)

lemma fl_value_15: "fl (9007199254740993 / 4503599627370496) = 2"
  using fl_eval[of "9007199254740993 / 4503599627370496" 51 "4503599627370496"] by simp

lemma fl_value_16: "fl (4503599627370496 / 4503599627370497) = 4503599627370495 / 4503599627370496"
  using fl_eval[of "4503599627370496 / 4503599627370497" 53 "9007199254740990"] by simp

lemma fl_value_17: "fl (- (20282409603651674149765451302149 / 20282409603651670423947251286016)) = - (4503599627370497 / 4503599627370496)"
  using fl_eval[of "- (20282409603651674149765451302149 / 20282409603651670423947251286016)" 52 "- 4503599627370497"] by simp

lemma fl_value_18: "fl (- (20282409603651670423947251286015 / 20282409603651670423947251286016)) = - 1"
  using fl_eval[of "- (20282409603651670423947251286015 / 20282409603651670423947251286016)" 53 "- 9007199254740992"] by simp

lemma fl_value_19: "fl (- (4503599627370495 / 4503599627370496)) = - (4503599627370495 / 4503599627370496)"
  using fl_eval[of "- (4503599627370495 / 4503599627370496)" 53 "- 9007199254740990"] by simp

lemma fl_value_20: "fl (1 / 9007199254740992) = 1 / 9007199254740992"
  using fl_eval[of "1 / 9007199254740992" 105 "4503599627370496"] by simp

lemma fl_value_21: "fl (1 / 81129638414606681695789005144064) = 1 / 81129638414606681695789005144064"
  using fl_eval[of "1 / 81129638414606681695789005144064" 158 "4503599627370496"] by simp

lemma fl_value_22: "fl (- (3725818200016133 / 182687704666362864775460604089535377456991567872)) = - (3725818200016133 / 182687704666362864775460604089535377456991567872)"
  using fl_eval[of "- (3725818200016133 / 182687704666362864775460604089535377456991567872)" 158 "- 7451636400032266"] by simp

lemma fl_value_23: "fl (- (3725818200016133 / 91343852333181432387730302044767688728495783936)) = - (3725818200016133 / 91343852333181432387730302044767688728495783936)"
  using fl_eval[of "- (3725818200016133 / 91343852333181432387730302044767688728495783936)" 157 "- 7451636400032266"] by simp

lemma fl_value_24: "fl (- (1125899906842624 / 3725818200016133)) = - (5443746451065123 / 18014398509481984)"
  using fl_eval[of "- (1125899906842624 / 3725818200016133)" 54 "- 5443746451065123"] by simp

lemma fl_value_25: "fl (- (5443746451065123 / 18014398509481984)) = - (5443746451065123 / 18014398509481984)"
  using fl_eval[of "- (5443746451065123 / 18014398509481984)" 54 "- 5443746451065123"] by simp

lemma fl_value_26: "fl (20282409603651668620133633629359 / 365375409332725729550921208179070754913983135744) = 9007199254740991 / 162259276829213363391578010288128"
  using fl_eval[of "20282409603651668620133633629359 / 365375409332725729550921208179070754913983135744" 107 "9007199254740991"] by simp

lemma fl_value_27: "fl (9007199254740991 / 162259276829213363391578010288128) = 9007199254740991 / 162259276829213363391578010288128"
  using fl_eval[of "9007199254740991 / 162259276829213363391578010288128" 107 "9007199254740991"] by simp

lemma fl_value_28: "fl (5443746451065123 / 18014398509481984) = 5443746451065123 / 18014398509481984"
  using fl_eval[of "5443746451065123 / 18014398509481984" 54 "5443746451065123"] by simp

lemma fl_value_29: "fl (- (9007199254740991 / 162259276829213363391578010288128)) = - (9007199254740991 / 162259276829213363391578010288128)"
  using fl_eval[of "- (9007199254740991 / 162259276829213363391578010288128)" 107 "- 9007199254740991"] by simp

lemma fl_value_30: "fl (- (9007199254740991 / 49032908977032695961285889622016)) = - (3725818200016133 / 20282409603651670423947251286016)"
  using fl_eval[of "- (9007199254740991 / 49032908977032695961285889622016)" 105 "- 7451636400032266"] by simp

lemma fl_value_31: "fl (9007199254740993 / 162259276829213363391578010288128) = 1 / 18014398509481984"
  using fl_eval[of "9007199254740993 / 162259276829213363391578010288128" 106 "4503599627370496"] by simp

lemma fl_value_32: "fl (1 / 5443746451065123) = 7451636400032267 / 40564819207303340847894502572032"
  using fl_eval[of "1 / 5443746451065123" 105 "7451636400032267"] by simp

lemma fl_value_33: "fl (- (27763442519142918225901120563511 / 822752278660603021077484591278675252491367932816789931674304512)) = - (6164722625521905 / 182687704666362864775460604089535377456991567872)"
  using fl_eval[of "- (27763442519142918225901120563511 / 822752278660603021077484591278675252491367932816789931674304512)" 157 "- 6164722625521905"] by simp

lemma fl_value_34: "fl (182687704666362864775460604089529212734366045967 / 182687704666362864775460604089535377456991567872) = 1"
  using fl_eval[of "182687704666362864775460604089529212734366045967 / 182687704666362864775460604089535377456991567872" 53 "9007199254740992"] by simp

lemma fl_value_35: "fl (7451636400032267 / 40564819207303340847894502572032) = 7451636400032267 / 40564819207303340847894502572032"
  using fl_eval[of "7451636400032267 / 40564819207303340847894502572032" 105 "7451636400032267"] by simp

lemma fl_value_36: "fl (14903272800064533 / 40564819207303340847894502572032) = 3725818200016133 / 10141204801825835211973625643008"
  using fl_eval[of "14903272800064533 / 40564819207303340847894502572032" 104 "7451636400032266"] by simp

lemma fl_value_37: "fl (- (9007199254740991 / 9007199254740992)) = - (9007199254740991 / 9007199254740992)"
  using fl_eval[of "- (9007199254740991 / 9007199254740992)" 53 "- 9007199254740991"] by simp

lemma fl_value_38: "fl (81129638414606663681390495662081 / 81129638414606681695789005144064) = 4503599627370495 / 4503599627370496"
  using fl_eval[of "81129638414606663681390495662081 / 81129638414606681695789005144064" 53 "9007199254740990"] by simp

lemma fl_value_39: "fl (9007199254740991 / 4503599627370496) = 9007199254740991 / 4503599627370496"
  using fl_eval[of "9007199254740991 / 4503599627370496" 52 "9007199254740991"] by simp

lemma fl_value_40: "fl (- (9007199254740991 / 4503599627370496)) = - (9007199254740991 / 4503599627370496)"
  using fl_eval[of "- (9007199254740991 / 4503599627370496)" 52 "- 9007199254740991"] by simp

lemmas fl_values = fl_value_1 fl_value_2 fl_value_3 fl_value_4 fl_value_5 fl_value_6 fl_value_7 fl_value_8 fl_value_9 fl_value_10 fl_value_11 fl_value_12 fl_value_13 fl_value_14 fl_value_15 fl_value_16 fl_value_17 fl_value_18 fl_value_19 fl_value_20 fl_value_21 fl_value_22 fl_value_23 fl_value_24 fl_value_25 fl_value_26 fl_value_27 fl_value_28 fl_value_29 fl_value_30 fl_value_31 fl_value_32 fl_value_33 fl_value_34 fl_value_35 fl_value_36 fl_value_37 fl_value_38 fl_value_39 fl_value_40


lemmas float_defs =
  biarc_interpolation_float_def biarc_arcs_float_def calculate_arc_float_def Let_def
  v_sub_float_def v_add_float_def v_dot_float_def v_scale_float_def v_truediv_float_def
  v_matmul_float_def ortho_def

lemma biarc_run:
  "biarc_interpolation_float (Vector 0 0)
      (Vector (- (3725818200016133 / 20282409603651670423947251286016)) (- 1)) (Vector 1 1) (Vector 1 0)
     = Inr (Radius (5443746451065123 / 18014398509481984), 0, Radius 1, arccos (1 / 9007199254740992))"
  by (simp add: float_defs fl_values)

lemma quarter_turn_apart:
  assumes "- 1 \<le> x" "x \<le> 1"
  shows "3 * pi / 2 + 0 \<noteq> 0 + arccos x + 2 * pi * of_int k"
proof
  assume e: "3 * pi / 2 + 0 = 0 + arccos x + 2 * pi * of_int k"
  have b: "0 \<le> arccos x" "arccos x \<le> pi"
    using assms by (simp_all add: arccos_lbound arccos_ubound)
  have y: "pi * (2 * of_int k) = 3 * pi / 2 - arccos x" using e by (simp add: algebra_simps)
  have "pi * (1 / 2) \<le> pi * (2 * of_int k)" "pi * (2 * of_int k) \<le> pi * (3 / 2)"
    unfolding y using b by linarith+
  then have "1 / 2 \<le> 2 * real_of_int k" "2 * real_of_int k \<le> 3 / 2"
    using pi_gt_zero by (simp_all only: mult_le_cancel_left_pos)
  then have "0 < k" "k < 1" by linarith+
  then show False by simp
qed

text \<open>
  Claim C6 fails on the doubles. The tangents are \<^verbatim>\<open>polar(1.5 * math.pi)\<close>, which is the
  vector \<open>(-1.8369701987210297e-16, -1.0)\<close> (the first component is
  \<open>- 3725818200016133 / 2 ^ 104\<close>), and \<^verbatim>\<open>polar(0.0)\<close>, from \<open>(0, 0)\<close> down and into
  \<open>(1, 1)\<close> to the right. The offset \<open>d\<close> is rounded to \<open>1 - 2 ^ -52\<close>, the join point to
  \<open>(0, 2 ^ -53)\<close> next to \<open>p1\<close>, and the first arc is computed from the rounding errors:
  radius \<open>0.30218863250969913\<close> and angle 0. The first arc reaches the join point with
  direction \<open>3 * pi / 2 + 0\<close>, the second passes it with direction \<open>0 + theta2\<close>, half
  a turn away.
\<close>

theorem biarc_float_not_c1:
  "biarc_interpolation_float (Vector 0 0)
      (Vector (- (3725818200016133 / 20282409603651670423947251286016)) (- 1)) (Vector 1 1) (Vector 1 0)
     = Inr (Radius (5443746451065123 / 18014398509481984), 0, Radius 1, arccos (1 / 9007199254740992)) \<and>
   (\<forall>k::int. 3 * pi / 2 + 0 \<noteq> 0 + arccos (1 / 9007199254740992) + 2 * pi * of_int k)"
  using biarc_run quarter_turn_apart[of "1 / 9007199254740992"] by simp

subsection \<open>Adding an edge of length zero\<close>

text \<open>
  Claim C9. \<^verbatim>\<open>End.add_edge\<close> with length 0 returns the end it was called on and leaves
  the whole store as it is: no edge and no node is created, no segment list changes, and
  the end's node keeps its pose and its \<^verbatim>\<open>s\<close>.
\<close>

theorem add_edge_zero_length:
  "end_add_edge en 0 radius extend_edge g = Inr (g, en)"
  by (simp add: end_add_edge_def)

subsection \<open>Angles that are multiples of \<open>pi\<close>\<close>

lemma py_mod_pi: "py_mod (c * pi) (2 * pi) = (c - 2 * of_int \<lfloor>c / 2\<rfloor>) * pi"
proof -
  have "c * pi / (2 * pi) = c / 2" by simp
  then show ?thesis by (simp add: py_mod_def algebra_simps)
qed

lemma angle_between_pi:
  "angle_between (a * pi) (b * pi) = (b - a + 1 - 2 * of_int \<lfloor>(b - a + 1) / 2\<rfloor> - 1) * pi"
proof -
  have "b * pi - a * pi + pi = (b - a + 1) * pi" by (simp add: algebra_simps)
  then show ?thesis
    unfolding angle_between_def by (simp only: py_mod_pi) (simp add: algebra_simps)
qed

lemma angle_between_0_pi:
  "angle_between 0 (b * pi) = (b + 1 - 2 * of_int \<lfloor>(b + 1) / 2\<rfloor> - 1) * pi"
  using angle_between_pi[of 0 b] by simp

lemma angle_between_pi_0:
  "angle_between (a * pi) 0 = (1 - a - 2 * of_int \<lfloor>(1 - a) / 2\<rfloor> - 1) * pi"
  using angle_between_pi[of a 0] by simp

lemma ab_0_a: "angle_between 0 (133 * pi / 200) = 133 * pi / 200"
  using angle_between_0_pi[of "0.665"] by simp

lemma ab_0_b: "angle_between 0 (267 * pi / 200) = - (133 * pi / 200)"
  using angle_between_0_pi[of "1.335"] by simp

lemma ab_a_0: "angle_between (133 * pi / 200) 0 = - (133 * pi / 200)"
  using angle_between_pi_0[of "0.665"] by simp

lemma ab_b_0: "angle_between (267 * pi / 200) 0 = 133 * pi / 200"
  using angle_between_pi_0[of "1.335"] by simp

subsection \<open>The tip of a switch\<close>

lemma switch_directions: "directions switch_graph 0 = Inr [0, 0.665 * pi, 1.335 * pi]"
  by (simp add: directions_def switch_graph_def switch_edge_def edge_start_def ebind_def)

text \<open>
  Claim C3 at the switch above: no incident direction is more than 120 degrees
  (\<open>2 * pi / 3\<close>) away from both others, and \<^verbatim>\<open>calculate_direction\<close> returns \<open>True\<close> and
  keeps the direction \<open>0\<close>, because the source compares with \<^verbatim>\<open>0.66 * math.pi\<close>
  (118.8 degrees).
\<close>

theorem calculate_direction_switch:
  "calculate_direction 0 switch_graph
     = Inr (True, upd_node 0 (\<lambda>nd. nd\<lparr>node_pose := Pose (Vector 0 0) 0\<rparr>) switch_graph) \<and>
   \<not> (\<exists>i<3. list_all (\<lambda>d. \<bar>angle_between ([0, 0.665 * pi, 1.335 * pi] ! i) d\<bar> > 2 * pi / 3)
          (take i [0, 0.665 * pi, 1.335 * pi] @ drop (i + 1) [0, 0.665 * pi, 1.335 * pi]))"
proof
  define ds :: "real list" where "ds = [0, 0.665 * pi, 1.335 * pi]"
  have dir: "directions switch_graph 0 = Inr ds"
    by (simp add: ds_def switch_directions)
  have len: "length ds = 3" by (simp add: ds_def)
  have tip: "find_tip ds [0..<3] = Some 0"
    by (simp add: ds_def upt_rec ab_0_a ab_0_b)
  have p: "pos (node_pose (node_heap switch_graph 0)) = Vector 0 0"
    by (simp add: switch_graph_def)
  show "calculate_direction 0 switch_graph
     = Inr (True, upd_node 0 (\<lambda>nd. nd\<lparr>node_pose := Pose (Vector 0 0) 0\<rparr>) switch_graph)"
    unfolding calculate_direction_def dir
    by (simp add: ebind_def tip len p)
next
  have "\<not> list_all (\<lambda>d. \<bar>angle_between ([0, 0.665 * pi, 1.335 * pi] ! i) d\<bar> > 2 * pi / 3)
          (take i [0, 0.665 * pi, 1.335 * pi] @ drop (i + 1) [0, 0.665 * pi, 1.335 * pi])"
    if "i < 3" for i :: nat
  proof -
    from that have "i = 0 \<or> i = 1 \<or> i = 2" by auto
    then show ?thesis
      by (auto simp: ab_0_a ab_a_0 ab_b_0)
  qed
  then show "\<not> (\<exists>i<3. list_all (\<lambda>d. \<bar>angle_between ([0, 0.665 * pi, 1.335 * pi] ! i) d\<bar> > 2 * pi / 3)
          (take i [0, 0.665 * pi, 1.335 * pi] @ drop (i + 1) [0, 0.665 * pi, 1.335 * pi]))"
    by blast
qed

subsection \<open>The shortest path\<close>

lemma sort_key_single: "sort_key f [a] = [a]"
  by simp

lemma dead_end_ends_0: "ends dead_end_graph 0 = Inr [End 0 SOURCE]"
  by (simp add: ends_def dead_end_graph_def end_pose_def edge_start_def ebind_def)

lemma dead_end_ends_1: "ends dead_end_graph 1 = Inr [End 0 TARGET]"
  by (simp add: ends_def dead_end_graph_def end_pose_def edge_end_def ebind_def)

lemma dead_end_length: "edge_length dead_end_graph 0 = Inr 10"
  by (simp add: edge_length_def dead_end_graph_def)

text \<open>
  Claim C1 on the single track: node 2 cannot be reached from node 0, and
  \<^verbatim>\<open>find_shortest_path\<close> returns a path of one end, the end it took from the queue last,
  not an empty path.
\<close>

theorem find_shortest_path_unreachable:
  "find_shortest_path dead_end_graph (StartNode 0) 2
     = Some (Inr \<lparr>path_ends = [End 0 SOURCE], start_offset = 0, end_offset = 0\<rparr>)"
proof -
  let ?E = "End 0 SOURCE"
  let ?preds = "[?E \<mapsto> None] :: End \<rightharpoonup> End option"
  have conn: "connected_ends dead_end_graph 1 (End 0 TARGET) = Inr []"
    by (simp add: connected_ends_def dead_end_ends_1[unfolded One_nat_def] ebind_def)
  have n1: "node_of_end dead_end_graph (End 0 TARGET) = Some 1"
    by (simp add: node_of_end_def dead_end_graph_def)
  have last: "search_loop dead_end_graph 2 [] ?preds 1 (Some ?E) = Some (Inr (Some ?E, ?preds))"
    by (subst search_loop.simps) simp
  have loop: "search_loop dead_end_graph 2 [(10, 0, ?E)] ?preds 1 None = Some (Inr (Some ?E, ?preds))"
    by (subst search_loop.simps)
      (simp add: heappop_def n1[unfolded One_nat_def] conn[unfolded One_nat_def] last[unfolded One_nat_def]
        other_end_def Let_def)
  have pb0: "path_back ?preds None [?E] = Some (Inr [?E])"
    by (subst path_back.simps) simp
  have pb: "path_back ?preds (Some ?E) [] = Some (Inr [?E])"
    by (subst path_back.simps) (simp add: pb0)
  show ?thesis
    by (simp add: find_shortest_path_def dead_end_ends_0 dead_end_length ebind_def heappush_def
        loop[unfolded One_nat_def] pb)
qed

subsection \<open>Two parallel routes\<close>

lemma path_back_start:
  "predecessors en = Some None \<Longrightarrow> path_back predecessors (Some en) [] = Some (Inr [en])"
proof -
  assume a: "predecessors en = Some None"
  have "path_back predecessors None [en] = Some (Inr [en])"
    by (subst path_back.simps) simp
  then show ?thesis
    by (subst path_back.simps) (simp add: a)
qed

lemma search_loop_reached:
  assumes "heappop heap = ((s, c, en), heap')" "heap \<noteq> []"
    and "node_of_end g (other_end en) = Some end_node"
  shows "search_loop g end_node heap predecessors cnt cur = Some (Inr (Some en, predecessors))"
  by (subst search_loop.simps) (simp add: assms Let_def)

lemma chain_append:
  "chain predecessors prev (xs @ ys)
     \<longleftrightarrow> chain predecessors prev xs \<and> chain predecessors (if xs = [] then prev else Some (last xs)) ys"
  by (induction xs arbitrary: prev) auto

lemma chain_upd: "x \<notin> set xs \<Longrightarrow> chain (predecessors(x \<mapsto> v)) prev xs = chain predecessors prev xs"
  by (induction xs arbitrary: prev) auto

lemma path_back_chain:
  "chain predecessors prev xs \<Longrightarrow>
     path_back predecessors (if xs = [] then prev else Some (last xs)) acc
       = path_back predecessors prev (xs @ acc)"
proof (induction xs arbitrary: acc rule: rev_induct)
  case Nil
  then show ?case by simp
next
  case (snoc y ys)
  from snoc.prems have c: "chain predecessors prev ys"
    and p: "predecessors y = Some (if ys = [] then prev else Some (last ys))"
    by (simp_all add: chain_append)
  have "path_back predecessors (Some y) acc
      = path_back predecessors (if ys = [] then prev else Some (last ys)) (y # acc)"
    by (subst path_back.simps) (simp add: p)
  also have "\<dots> = path_back predecessors prev (ys @ y # acc)"
    by (rule snoc.IH[OF c])
  finally show ?case by simp
qed

lemma path_back_route:
  assumes "chain predecessors None xs" "xs \<noteq> []"
  shows "path_back predecessors (Some (last xs)) [] = Some (Inr xs)"
proof -
  have "path_back predecessors None xs = Some (Inr xs)"
    by (subst path_back.simps) simp
  with path_back_chain[OF assms(1), of "[]"] assms(2) show ?thesis by simp
qed

lemma heappop_two:
  "x \<noteq> y \<Longrightarrow> heappop [x, y] = (if entry_less y x then (y, [x]) else (x, [y]))"
  by (simp add: heappop_def)

lemma search_loop_step:
  assumes "heappop heap = ((s, c, en), heap')" "heap \<noteq> []"
    and "node_of_end g (other_end en) = Some n" "n \<noteq> end_node"
    and "connected_ends g n (other_end en) = Inr [en']"
    and "predecessors en' = None"
    and "edge_length g (end_edge en') = Inr l"
  shows "search_loop g end_node heap predecessors cnt cur
     = search_loop g end_node (heap' @ [(s + l, cnt, en')]) (predecessors(en' \<mapsto> Some en)) (cnt + 1) (Some en)"
  by (subst search_loop.simps) (simp add: assms Let_def ebind_def heappush_def)

lemma emap_Cons_Inr:
  "emap f (x # xs) = Inr ls \<longleftrightarrow> (\<exists>l ls'. f x = Inr l \<and> emap f xs = Inr ls' \<and> ls = l # ls')"
  by (auto simp: ebind_def split: sum.splits)

text \<open>
  The search with one end of each route in the queue: \<open>a\<close> with the ends \<open>pa\<close> of its
  route behind it and \<open>sa\<close> ahead, at cost \<open>ca\<close>, and \<open>b\<close> likewise.
\<close>

lemma search_two_routes:
  assumes "length sa + length sb = k"
    and ra: "route g end_node (a # sa)" and rb: "route g end_node (b # sb)"
    and la: "emap (\<lambda>en. edge_length g (end_edge en)) sa = Inr lsa" "ca + sum_list lsa = 100"
      "\<forall>l\<in>set lsa. 0 \<le> l"
    and lb: "emap (\<lambda>en. edge_length g (end_edge en)) sb = Inr lsb" "cb + sum_list lsb = 200"
    and d: "distinct (pa @ a # sa @ pb @ b # sb)"
    and h: "heap = [(ca, na, a), (cb, nb, b)] \<or> heap = [(cb, nb, b), (ca, na, a)]"
    and n: "na < cnt" "nb < cnt" "na \<noteq> nb"
    and dm: "dom predecessors = set (pa @ a # pb @ [b])"
    and ch: "chain predecessors None (pa @ [a])"
  shows "\<exists>preds'. search_loop g end_node heap predecessors cnt cur
            = Some (Inr (Some (last (a # sa)), preds'))
          \<and> chain preds' None (pa @ a # sa)"
  using assms
proof (induction k arbitrary: a sa pa ca na b sb pb cb nb heap predecessors cnt cur lsa lsb
    rule: less_induct)
  case (less k)
  let ?A = "(ca, na, a)" and ?B = "(cb, nb, b)"
  note ra = less.prems(2) and rb = less.prems(3)
  note la = less.prems(4,5,6) and lb = less.prems(7,8)
  note d = less.prems(9) and h = less.prems(10) and n = less.prems(11,12,13)
  note dm = less.prems(14) and ch = less.prems(15)
  have ne: "?A \<noteq> ?B" and ne': "?B \<noteq> ?A" using n(3) by simp_all
  have hne: "heap \<noteq> []" using h by auto
  have "0 \<le> sum_list lsa" using la(3) by (intro sum_list_nonneg) auto
  then have ca: "ca \<le> 100" using la(2) by simp
  have pop: "heappop heap = (?A, [?B]) \<or> (sb \<noteq> [] \<and> heappop heap = (?B, [?A]))"
  proof (cases "sb = []")
    case True
    then have "cb = 200" using lb by simp
    then have "entry_less ?A ?B" "\<not> entry_less ?B ?A" using ca by (simp_all add: entry_less_def)
    then have "heappop [?A, ?B] = (?A, [?B])" "heappop [?B, ?A] = (?A, [?B])"
      by (simp_all add: heappop_two[OF ne] heappop_two[OF ne'])
    then show ?thesis using h by auto
  next
    case False
    have "heappop [?A, ?B] = (?A, [?B]) \<or> heappop [?A, ?B] = (?B, [?A])"
      by (cases "entry_less ?B ?A") (simp_all add: heappop_two[OF ne])
    moreover have "heappop [?B, ?A] = (?A, [?B]) \<or> heappop [?B, ?A] = (?B, [?A])"
      by (cases "entry_less ?A ?B") (simp_all add: heappop_two[OF ne'])
    ultimately show ?thesis using h False by auto
  qed
  then show ?case
  proof
    assume p: "heappop heap = (?A, [?B])"
    show ?thesis
    proof (cases sa)
      case Nil
      with ra have "node_of_end g (other_end a) = Some end_node" by simp
      from search_loop_reached[OF p hne this] ch Nil show ?thesis by simp
    next
      case (Cons a' sa')
      from ra Cons obtain m where m: "node_of_end g (other_end a) = Some m" "m \<noteq> end_node"
        "connected_ends g m (other_end a) = Inr [a']" and ra': "route g end_node (a' # sa')"
        by (auto split: option.splits)
      from la(1)[unfolded Cons emap_Cons_Inr] obtain l' lsa' where l': "edge_length g (end_edge a') = Inr l'"
        and la': "emap (\<lambda>en. edge_length g (end_edge en)) sa' = Inr lsa'" and ls: "lsa = l' # lsa'"
        by blast
      have fresh: "predecessors a' = None"
        using d dm Cons by (auto simp: domIff[symmetric] simp del: domIff)
      have step: "search_loop g end_node heap predecessors cnt cur
          = search_loop g end_node ([?B] @ [(ca + l', cnt, a')]) (predecessors(a' \<mapsto> Some a)) (cnt + 1) (Some a)"
        by (rule search_loop_step[where predecessors=predecessors, OF p hne m fresh l'])
      have nin: "a' \<notin> set (pa @ [a])" using d Cons by auto
      have ch0: "chain (predecessors(a' \<mapsto> Some a)) None (pa @ [a])"
        using ch by (simp only: chain_upd[OF nin])
      have ch': "chain (predecessors(a' \<mapsto> Some a)) None ((pa @ [a]) @ [a'])"
        using ch0 by (subst chain_append) simp
      have "\<exists>preds'. search_loop g end_node ([?B] @ [(ca + l', cnt, a')]) (predecessors(a' \<mapsto> Some a))
                (cnt + 1) (Some a) = Some (Inr (Some (last (a' # sa')), preds'))
          \<and> chain preds' None ((pa @ [a]) @ a' # sa')"
      proof (rule less.IH[OF _ refl ra' rb la' _ _ lb _ _ _ _ _ _ ch'])
        show "length sa' + length sb < k" using less.prems(1) Cons by simp
        show "ca + l' + sum_list lsa' = 100" using la(2) ls by simp
        show "\<forall>l\<in>set lsa'. 0 \<le> l" using la(3) ls by simp
        show "distinct ((pa @ [a]) @ a' # sa' @ pb @ b # sb)" using d Cons by simp
        show "[?B] @ [(ca + l', cnt, a')] = [(ca + l', cnt, a'), ?B] \<or> [?B] @ [(ca + l', cnt, a')] = [?B, (ca + l', cnt, a')]"
          by simp
        show "cnt < cnt + 1" "nb < cnt + 1" "cnt \<noteq> nb" using n by simp_all
        show "dom (predecessors(a' \<mapsto> Some a)) = set ((pa @ [a]) @ a' # pb @ [b])"
          using dm by auto
      qed
      then show ?thesis using step Cons by simp
    qed
  next
    assume "sb \<noteq> [] \<and> heappop heap = (?B, [?A])"
    then have p: "heappop heap = (?B, [?A])" and sb: "sb \<noteq> []" by simp_all
    from sb obtain b' sb' where Cons: "sb = b' # sb'" by (cases sb) auto
    from rb Cons obtain m where m: "node_of_end g (other_end b) = Some m" "m \<noteq> end_node"
      "connected_ends g m (other_end b) = Inr [b']" and rb': "route g end_node (b' # sb')"
      by (auto split: option.splits)
    from lb(1)[unfolded Cons emap_Cons_Inr] obtain l' lsb' where l': "edge_length g (end_edge b') = Inr l'"
      and lb': "emap (\<lambda>en. edge_length g (end_edge en)) sb' = Inr lsb'" and ls: "lsb = l' # lsb'"
      by blast
    have fresh: "predecessors b' = None"
      using d dm Cons by (auto simp: domIff[symmetric] simp del: domIff)
    have step: "search_loop g end_node heap predecessors cnt cur
        = search_loop g end_node ([?A] @ [(cb + l', cnt, b')]) (predecessors(b' \<mapsto> Some b)) (cnt + 1) (Some b)"
      by (rule search_loop_step[where predecessors=predecessors, OF p hne m fresh l'])
    have nin: "b' \<notin> set (pa @ [a])" using d Cons by auto
    have ch': "chain (predecessors(b' \<mapsto> Some b)) None (pa @ [a])"
      using ch by (simp only: chain_upd[OF nin])
    have "\<exists>preds'. search_loop g end_node ([?A] @ [(cb + l', cnt, b')]) (predecessors(b' \<mapsto> Some b))
              (cnt + 1) (Some b) = Some (Inr (Some (last (a # sa)), preds'))
        \<and> chain preds' None (pa @ a # sa)"
    proof (rule less.IH[OF _ refl ra rb' la lb' _ _ _ _ _ _ _ ch'])
      show "length sa + length sb' < k" using less.prems(1) Cons by simp
      show "cb + l' + sum_list lsb' = 200" using lb(2) ls by simp
      show "distinct (pa @ a # sa @ (pb @ [b]) @ b' # sb')" using d Cons by simp
      show "[?A] @ [(cb + l', cnt, b')] = [?A, (cb + l', cnt, b')] \<or> [?A] @ [(cb + l', cnt, b')] = [(cb + l', cnt, b'), ?A]"
        by simp
      show "na < cnt + 1" "cnt < cnt + 1" "na \<noteq> cnt" using n by simp_all
      show "dom (predecessors(b' \<mapsto> Some b)) = set (pa @ a # (pb @ [b]) @ [b'])"
        using dm by auto
    qed
    then show ?thesis using step by simp
  qed
qed

text \<open>
  Claim C4. Two routes lead from \<open>start\<close> to \<open>end_node\<close>, \<open>ra\<close> of total length 100 and
  \<open>rb\<close> of total length 200, each over any number of edges; the ends of \<open>start\<close> are the
  first ends of the two routes, in either order. Whatever the poses and the segments are,
  \<^verbatim>\<open>find_shortest_path\<close> returns the path that holds exactly the ends of \<open>ra\<close>, in order.
\<close>

theorem find_shortest_path_parallel_routes:
  assumes es: "ends g start = Inr es" "es = [hd ra, hd rb] \<or> es = [hd rb, hd ra]"
    and routes: "route g end_node ra" "route g end_node rb"
    and dist: "distinct (ra @ rb)"
    and la: "emap (\<lambda>en. edge_length g (end_edge en)) ra = Inr la" "sum_list la = 100"
      "\<forall>l\<in>set la. 0 \<le> l"
    and lb: "emap (\<lambda>en. edge_length g (end_edge en)) rb = Inr lb" "sum_list lb = 200"
  shows "find_shortest_path g (StartNode start) end_node
     = Some (Inr \<lparr>path_ends = ra, start_offset = 0, end_offset = 0\<rparr>)"
proof -
  from routes obtain a sa b sb where ra: "ra = a # sa" and rb: "rb = b # sb"
    by (cases ra; cases rb) auto
  from la(1)[unfolded ra emap_Cons_Inr] obtain l1 lsa where l1: "edge_length g (end_edge a) = Inr l1"
    and lsa: "emap (\<lambda>en. edge_length g (end_edge en)) sa = Inr lsa" and la': "la = l1 # lsa"
    by blast
  from lb(1)[unfolded rb emap_Cons_Inr] obtain m1 lsb where m1: "edge_length g (end_edge b) = Inr m1"
    and lsb: "emap (\<lambda>en. edge_length g (end_edge en)) sb = Inr lsb" and lb': "lb = m1 # lsb"
    by blast
  have ab: "a \<noteq> b" using dist ra rb by auto
  have sa: "l1 + sum_list lsa = 100" "\<forall>l\<in>set lsa. 0 \<le> l" using la(2,3) la' by simp_all
  have sb: "m1 + sum_list lsb = 200" using lb(2) lb' by simp
  have d: "distinct ([] @ a # sa @ [] @ b # sb)" using dist ra rb by simp
  have "\<exists>heap preds. push_start_ends g es ([], Map.empty, 0) = Inr (heap, preds, 2)
      \<and> (\<exists>preds'. search_loop g end_node heap preds 2 None = Some (Inr (Some (last (a # sa)), preds'))
            \<and> chain preds' None ([] @ a # sa))"
    using es(2)
  proof
    assume o: "es = [hd ra, hd rb]"
    let ?heap = "[(l1, 0, a), (m1, 1, b)] :: heap_entry list"
    let ?preds = "[a \<mapsto> None, b \<mapsto> None] :: End \<rightharpoonup> End option"
    have init: "push_start_ends g es ([], Map.empty, 0) = Inr (?heap, ?preds, 2)"
      by (simp add: o ra rb l1 m1 ebind_def heappush_def)
    have "\<exists>preds'. search_loop g end_node ?heap ?preds 2 None = Some (Inr (Some (last (a # sa)), preds'))
            \<and> chain preds' None ([] @ a # sa)"
    proof (rule search_two_routes[OF refl _ _ lsa sa lsb sb d])
      show "route g end_node (a # sa)" "route g end_node (b # sb)" using routes ra rb by simp_all
      show "?heap = [(l1, 0, a), (m1, 1, b)] \<or> ?heap = [(m1, 1, b), (l1, 0, a)]" by simp
      show "(0::nat) < 2" "(1::nat) < 2" "(0::nat) \<noteq> 1" by simp_all
      show "dom ?preds = set ([] @ a # [] @ [b])" by auto
      show "chain ?preds None ([] @ [a])" using ab by simp
    qed
    with init show ?thesis by blast
  next
    assume o: "es = [hd rb, hd ra]"
    let ?heap = "[(m1, 0, b), (l1, 1, a)] :: heap_entry list"
    let ?preds = "[b \<mapsto> None, a \<mapsto> None] :: End \<rightharpoonup> End option"
    have init: "push_start_ends g es ([], Map.empty, 0) = Inr (?heap, ?preds, 2)"
      by (simp add: o ra rb l1 m1 ebind_def heappush_def)
    have "\<exists>preds'. search_loop g end_node ?heap ?preds 2 None = Some (Inr (Some (last (a # sa)), preds'))
            \<and> chain preds' None ([] @ a # sa)"
    proof (rule search_two_routes[OF refl _ _ lsa sa lsb sb d])
      show "route g end_node (a # sa)" "route g end_node (b # sb)" using routes ra rb by simp_all
      show "?heap = [(l1, 1, a), (m1, 0, b)] \<or> ?heap = [(m1, 0, b), (l1, 1, a)]" by simp
      show "(1::nat) < 2" "(0::nat) < 2" "(1::nat) \<noteq> 0" by simp_all
      show "dom ?preds = set ([] @ a # [] @ [b])" by auto
      show "chain ?preds None ([] @ [a])" by simp
    qed
    with init show ?thesis by blast
  qed
  then obtain heap preds preds' where
    init: "push_start_ends g es ([], Map.empty, 0) = Inr (heap, preds, 2)"
    and loop: "search_loop g end_node heap preds 2 None = Some (Inr (Some (last ra), preds'))"
    and ch: "chain preds' None ra"
    by (auto simp: ra)
  have pb: "path_back preds' (Some (last ra)) [] = Some (Inr ra)"
    by (rule path_back_route[OF ch]) (simp add: ra)
  show ?thesis
    unfolding find_shortest_path_def start_arg.case es(1) sum.case init prod.case loop option.case pb
    by simp
qed

lemma py_mod_four_thirds: "py_mod (4 * pi / 3) (2 * pi) = 4 * pi / 3"
  using py_mod_pi[of "4 / 3"] by simp

lemma py_mod_third: "py_mod (pi / 3) (2 * pi) = pi / 3"
  using py_mod_pi[of "1 / 3"] by simp

lemma parallel_routes_dirs:
  "ebind (edge_start parallel_routes_graph 0) (\<lambda>q. Inr (direction q)) = Inr 0"
  "ebind (edge_start parallel_routes_graph 1) (\<lambda>q. Inr (direction q)) = Inr 0"
  "ebind (edge_start parallel_routes_graph 2) (\<lambda>q. Inr (direction q)) = Inr (pi / 3)"
  "ebind (edge_start parallel_routes_graph 3) (\<lambda>q. Inr (direction q)) = Inr (5 * pi / 3)"
  "ebind (edge_end parallel_routes_graph 0) (\<lambda>q. Inr (direction q)) = Inr pi"
  "ebind (edge_end parallel_routes_graph 2) (\<lambda>q. Inr (direction q)) = Inr (4 * pi / 3)"
  using py_mod_pi[of 1] py_mod_pi[of 0]
  by (simp_all add: parallel_routes_graph_def edge_start_def edge_end_def ebind_def seg_end_def
      seg_travel_def straight_def reverse_def Pose_def py_mod_four_thirds py_mod_third)

lemma parallel_routes_angles:
  "angle_between 0 0 = 0" "angle_between 0 (pi / 3) = pi / 3" "angle_between 0 pi = - pi"
  "angle_between (pi / 3) (5 * pi / 3) = - (2 * pi / 3)" "angle_between (pi / 3) (4 * pi / 3) = - pi"
  using angle_between_0_pi[of 0] angle_between_0_pi[of "1 / 3"] angle_between_0_pi[of 1]
    angle_between_pi[of "1 / 3" "5 / 3"] angle_between_pi[of "1 / 3" "4 / 3"]
  by simp_all

lemma parallel_routes_ends:
  "ends parallel_routes_graph 0 = Inr [End 0 SOURCE, End 2 SOURCE]"
  "ends parallel_routes_graph 2 = Inr [End 1 SOURCE, End 0 TARGET]"
  "ends parallel_routes_graph 3 = Inr [End 3 SOURCE, End 2 TARGET]"
  using py_mod_pi[of 1] py_mod_pi[of 0]
  by (simp_all add: ends_def end_pose_def ebind_def parallel_routes_graph_def edge_start_def
      edge_end_def seg_end_def seg_travel_def straight_def reverse_def Pose_def py_mod_four_thirds
      py_mod_third parallel_routes_angles not_le)

lemma parallel_routes_connected:
  "connected_ends parallel_routes_graph 2 (End 0 TARGET) = Inr [End 1 SOURCE]"
  "connected_ends parallel_routes_graph 3 (End 2 TARGET) = Inr [End 3 SOURCE]"
  by (simp_all add: connected_ends_def parallel_routes_ends ebind_def)

lemma parallel_routes_nodes:
  "node_of_end parallel_routes_graph (End 0 TARGET) = Some 2"
  "node_of_end parallel_routes_graph (End 1 TARGET) = Some 1"
  "node_of_end parallel_routes_graph (End 2 TARGET) = Some 3"
  "node_of_end parallel_routes_graph (End 3 TARGET) = Some 1"
  by (simp_all add: node_of_end_def parallel_routes_graph_def)

lemma parallel_routes_lengths:
  "emap (\<lambda>en. edge_length parallel_routes_graph (end_edge en)) [End 0 SOURCE, End 1 SOURCE] = Inr [40, 60]"
  "emap (\<lambda>en. edge_length parallel_routes_graph (end_edge en)) [End 2 SOURCE, End 3 SOURCE] = Inr [100, 100]"
  by (simp_all add: edge_length_def parallel_routes_graph_def ebind_def)

theorem find_shortest_path_parallel_routes_witness:
  "ends parallel_routes_graph 0 = Inr [End 0 SOURCE, End 2 SOURCE] \<and>
   route parallel_routes_graph 1 [End 0 SOURCE, End 1 SOURCE] \<and>
   route parallel_routes_graph 1 [End 2 SOURCE, End 3 SOURCE] \<and>
   emap (\<lambda>en. edge_length parallel_routes_graph (end_edge en)) [End 0 SOURCE, End 1 SOURCE] = Inr [40, 60] \<and>
   emap (\<lambda>en. edge_length parallel_routes_graph (end_edge en)) [End 2 SOURCE, End 3 SOURCE] = Inr [100, 100] \<and>
   find_shortest_path parallel_routes_graph (StartNode 0) 1
     = Some (Inr \<lparr>path_ends = [End 0 SOURCE, End 1 SOURCE], start_offset = 0, end_offset = 0\<rparr>)"
proof -
  have ra: "route parallel_routes_graph 1 [End 0 SOURCE, End 1 SOURCE]"
    and rb: "route parallel_routes_graph 1 [End 2 SOURCE, End 3 SOURCE]"
    by (simp_all add: other_end_def parallel_routes_nodes(2)[unfolded One_nat_def]
        parallel_routes_nodes(1,3,4) parallel_routes_connected)
  have "find_shortest_path parallel_routes_graph (StartNode 0) 1
     = Some (Inr \<lparr>path_ends = [End 0 SOURCE, End 1 SOURCE], start_offset = 0, end_offset = 0\<rparr>)"
    by (rule find_shortest_path_parallel_routes[OF parallel_routes_ends(1) _ ra rb _ parallel_routes_lengths(1) _ _
          parallel_routes_lengths(2)]) simp_all
  with parallel_routes_ends(1) ra rb parallel_routes_lengths show ?thesis by simp
qed

subsection \<open>Directions modulo a full turn\<close>

lemma py_mod_shift: "py_mod (a + 2 * pi * of_int k) (2 * pi) = py_mod a (2 * pi)"
proof -
  have "(a + 2 * pi * of_int k) / (2 * pi) = a / (2 * pi) + of_int k"
    by (simp add: field_simps)
  then show ?thesis
    by (simp add: py_mod_def algebra_simps)
qed

lemma py_mod_eq: "py_mod a (2 * pi) = a + 2 * pi * of_int (- \<lfloor>a / (2 * pi)\<rfloor>)"
  by (simp add: py_mod_def)

lemma py_mod_add_left [simp]: "py_mod (py_mod a (2 * pi) + b) (2 * pi) = py_mod (a + b) (2 * pi)"
proof -
  have "py_mod a (2 * pi) + b = (a + b) + 2 * pi * of_int (- \<lfloor>a / (2 * pi)\<rfloor>)"
    by (simp add: py_mod_def)
  then show ?thesis
    by (simp only: py_mod_shift)
qed

lemma py_mod_add_right [simp]: "py_mod (b + py_mod a (2 * pi)) (2 * pi) = py_mod (b + a) (2 * pi)"
  using py_mod_add_left[of a b] by (simp add: add.commute)

lemma py_mod_idem [simp]: "py_mod (py_mod a (2 * pi)) (2 * pi) = py_mod a (2 * pi)"
  using py_mod_add_left[of a 0] by simp

lemma py_mod_diff_left [simp]: "py_mod (py_mod a (2 * pi) - b) (2 * pi) = py_mod (a - b) (2 * pi)"
  using py_mod_add_left[of a "- b"] by simp

lemma py_mod_full_turn [simp]: "py_mod (a + 2 * pi) (2 * pi) = py_mod a (2 * pi)"
  using py_mod_shift[of a 1] by simp

lemma cos_py_mod [simp]: "cos (py_mod a (2 * pi) + b) = cos (a + b)"
proof -
  have "py_mod a (2 * pi) + b = (a + b) - 2 * pi * of_int \<lfloor>a / (2 * pi)\<rfloor>"
    by (simp add: py_mod_def)
  then show ?thesis
    by (simp only: cos_diff cos_int_2pin sin_int_2pin)
qed

lemma sin_py_mod [simp]: "sin (py_mod a (2 * pi) + b) = sin (a + b)"
proof -
  have "py_mod a (2 * pi) + b = (a + b) - 2 * pi * of_int \<lfloor>a / (2 * pi)\<rfloor>"
    by (simp add: py_mod_def)
  then show ?thesis
    by (simp only: sin_diff cos_int_2pin sin_int_2pin)
qed

lemma cos_py_mod0 [simp]: "cos (py_mod a (2 * pi)) = cos a"
  using cos_py_mod[of a 0] by simp

lemma sin_py_mod0 [simp]: "sin (py_mod a (2 * pi)) = sin a"
  using sin_py_mod[of a 0] by simp

lemma cos_py_mod_diff [simp]: "cos (py_mod a (2 * pi) - b) = cos (a - b)"
  using cos_py_mod[of a "- b"] by simp

lemma sin_py_mod_diff [simp]: "sin (py_mod a (2 * pi) - b) = sin (a - b)"
  using sin_py_mod[of a "- b"] by simp

subsection \<open>Flipping a segment\<close>

lemma seg_length_flip [simp]: "seg_length (seg_flip s) = seg_length s"
  by (simp add: seg_flip_def)

lemma trig_reversed:
  "cos (py_mod (py_mod c (2 * pi) + pi) (2 * pi) + x) = - cos (c + x)"
  "sin (py_mod (py_mod c (2 * pi) + pi) (2 * pi) + x) = - sin (c + x)"
proof -
  have e: "c + (pi + x) = (c + x) + pi" by simp
  have "cos (py_mod (py_mod c (2 * pi) + pi) (2 * pi) + x) = cos (py_mod c (2 * pi) + (pi + x))"
    by (simp add: add.assoc)
  also have "\<dots> = cos (c + (pi + x))" by (rule cos_py_mod)
  finally show "cos (py_mod (py_mod c (2 * pi) + pi) (2 * pi) + x) = - cos (c + x)"
    unfolding e by simp
  have "sin (py_mod (py_mod c (2 * pi) + pi) (2 * pi) + x) = sin (py_mod c (2 * pi) + (pi + x))"
    by (simp add: add.assoc)
  also have "\<dots> = sin (c + (pi + x))" by (rule sin_py_mod)
  finally show "sin (py_mod (py_mod c (2 * pi) + pi) (2 * pi) + x) = - sin (c + x)"
    unfolding e by simp
qed

lemma trig_minus_pi: "cos (y - pi) = - cos y" "sin (y - pi) = - sin y"
  using cos_periodic_pi[of "y - pi"] sin_periodic_pi[of "y - pi"] by simp_all

lemma seg_travel_straight:
  "seg_radius s = 0 \<Longrightarrow>
   seg_travel s u = RawPose (Vector (vx (pos (seg_start s)) + cos (direction (seg_start s)) * u)
                                   (vy (pos (seg_start s)) + sin (direction (seg_start s)) * u))
                     (py_mod (direction (seg_start s)) (2 * pi))"
  by (simp add: seg_travel_def straight_def Pose_def polar_def v_add_def)

lemma seg_travel_arc:
  "seg_radius s \<noteq> 0 \<Longrightarrow>
   seg_travel s u =
     RawPose (Vector (vx (pos (seg_start s)) + cos (direction (seg_start s) - 0.5 * pi) * seg_radius s
                        + cos (direction (seg_start s) + 0.5 * pi - u / seg_radius s) * seg_radius s)
                     (vy (pos (seg_start s)) + sin (direction (seg_start s) - 0.5 * pi) * seg_radius s
                        + sin (direction (seg_start s) + 0.5 * pi - u / seg_radius s) * seg_radius s))
       (py_mod (direction (seg_start s) - u / seg_radius s) (2 * pi))"
  by (simp add: seg_travel_def straight_def Pose_def polar_def v_add_def center_def Let_def)

lemma seg_travel_flip:
  "seg_travel (seg_flip s) (seg_length s - u) = reverse (seg_travel s u)"
proof (cases "seg_radius s = 0")
  case True
  then show ?thesis
    apply (simp add: seg_travel_def seg_flip_def seg_end_def straight_def reverse_def Pose_def
        polar_def v_add_def)
    apply (simp add: algebra_simps)
    done
next
  case False
  define a where "a = direction (seg_start s)"
  define r where "r = seg_radius s"
  define L where "L = seg_length s"
  define px where "px = vx (pos (seg_start s))"
  define py where "py = vy (pos (seg_start s))"
  define a1 where "a1 = py_mod (py_mod (a - L / r) (2 * pi) + pi) (2 * pi)"
  have rn: "r \<noteq> 0" using False by (simp add: r_def)
  have fl: "seg_flip s = s\<lparr>seg_start :=
        RawPose (Vector (px + cos (a - 0.5 * pi) * r + cos (a + 0.5 * pi - L / r) * r)
                        (py + sin (a - 0.5 * pi) * r + sin (a + 0.5 * pi - L / r) * r)) a1,
      seg_radius := - r\<rparr>"
    using False
    by (simp add: seg_flip_def seg_end_def seg_travel_arc reverse_def Pose_def
        a_def r_def L_def px_def py_def a1_def)
  have ang: "(L - u) / - r = - ((L - u) / r)" by simp
  have c1: "cos (a1 - 0.5 * pi) = - cos (a - L / r - 0.5 * pi)"
    and s1: "sin (a1 - 0.5 * pi) = - sin (a - L / r - 0.5 * pi)"
    using trig_reversed[of "a - L / r" "- (0.5 * pi)"] by (simp_all add: a1_def)
  have c2: "cos (a1 + 0.5 * pi - - ((L - u) / r)) = - cos (a - L / r + (0.5 * pi + (L - u) / r))"
    and s2: "sin (a1 + 0.5 * pi - - ((L - u) / r)) = - sin (a - L / r + (0.5 * pi + (L - u) / r))"
    using trig_reversed[of "a - L / r" "0.5 * pi + (L - u) / r"] by (simp_all add: a1_def add.assoc)
  have e3: "a - L / r + (0.5 * pi + (L - u) / r) = a + 0.5 * pi - u / r"
    using rn by (simp add: field_simps)
  have e4: "a - L / r - 0.5 * pi = (a + 0.5 * pi - L / r) - pi"
    by simp
  have c4: "cos (a - L / r - 0.5 * pi) = - cos (a + 0.5 * pi - L / r)"
    and s4: "sin (a - L / r - 0.5 * pi) = - sin (a + 0.5 * pi - L / r)"
    unfolding e4 by (rule trig_minus_pi)+
  have d1: "py_mod (a1 - - ((L - u) / r)) (2 * pi) = py_mod (py_mod (a - u / r) (2 * pi) + pi) (2 * pi)"
  proof -
    have "py_mod (a1 - - ((L - u) / r)) (2 * pi) = py_mod (py_mod (a - L / r) (2 * pi) + (pi + (L - u) / r)) (2 * pi)"
      unfolding a1_def by (simp add: add.assoc)
    also have "\<dots> = py_mod (a - L / r + (pi + (L - u) / r)) (2 * pi)" by simp
    also have "a - L / r + (pi + (L - u) / r) = a - u / r + pi"
      using rn by (simp add: field_simps)
    finally show ?thesis by simp
  qed
  have lhs: "seg_travel (seg_flip s) (L - u) =
      RawPose (Vector (px + cos (a - 0.5 * pi) * r + cos (a + 0.5 * pi - L / r) * r
                         + cos (a1 - 0.5 * pi) * - r + cos (a1 + 0.5 * pi - - ((L - u) / r)) * - r)
                      (py + sin (a - 0.5 * pi) * r + sin (a + 0.5 * pi - L / r) * r
                         + sin (a1 - 0.5 * pi) * - r + sin (a1 + 0.5 * pi - - ((L - u) / r)) * - r))
        (py_mod (a1 - - ((L - u) / r)) (2 * pi))"
    unfolding fl using rn by (subst seg_travel_arc) (simp_all add: ang)
  have rhs: "reverse (seg_travel s u) =
      RawPose (Vector (px + cos (a - 0.5 * pi) * r + cos (a + 0.5 * pi - u / r) * r)
                      (py + sin (a - 0.5 * pi) * r + sin (a + 0.5 * pi - u / r) * r))
        (py_mod (py_mod (a - u / r) (2 * pi) + pi) (2 * pi))"
    using False
    by (simp add: seg_travel_arc reverse_def Pose_def a_def r_def px_def py_def)
  show ?thesis
    unfolding L_def[symmetric] lhs rhs c1 s1 c2 s2 e3 c4 s4 d1
    by simp
qed

lemma polar_reversed:
  "polar (py_mod (a + pi) (2 * pi)) 1 = v_neg (polar a 1)"
proof -
  have "cos (py_mod (a + pi) (2 * pi)) = - cos a" "sin (py_mod (a + pi) (2 * pi)) = - sin a"
    by simp_all
  then show ?thesis by (simp add: polar_def v_neg_def)
qed

lemma seg_to_global_flip:
  "seg_to_global (seg_flip s) (mirrored len q) (len - off - seg_length s) ea eb
     = seg_to_global s q off eb ea"
proof -
  define u where "u = vx (pos q) - off"
  define q0 where "q0 = seg_travel s u"
  have x': "vx (pos (mirrored len q)) - (len - off - seg_length s) = seg_length s - u"
    by (simp add: mirrored_def u_def)
  have tr: "seg_travel (seg_flip s) (seg_length s - u) = Pose (pos q0) (direction q0 + pi)"
    by (simp add: seg_travel_flip q0_def reverse_def)
  have dir: "direction (Pose (pos q0) (direction q0 + pi)) = py_mod (direction q0 + pi) (2 * pi)"
    and ps: "pos (Pose (pos q0) (direction q0 + pi)) = pos q0"
    by (simp_all add: Pose_def)
  have p: "v_add (pos q0) (v_scale (ortho (polar (py_mod (direction q0 + pi) (2 * pi)) 1)) (vy (pos (mirrored len q))))
      = v_add (pos q0) (v_scale (ortho (polar (direction q0) 1)) (vy (pos q)))"
    unfolding polar_reversed by (simp add: mirrored_def v_neg_def ortho_def v_scale_def polar_def)
  have d: "py_mod (direction (mirrored len q) + py_mod (direction q0 + pi) (2 * pi)) (2 * pi)
      = py_mod (direction q + direction q0) (2 * pi)"
  proof -
    have "py_mod (direction (mirrored len q) + py_mod (direction q0 + pi) (2 * pi)) (2 * pi)
        = py_mod (direction q + pi + (direction q0 + pi)) (2 * pi)"
      by (simp add: mirrored_def)
    also have "direction q + pi + (direction q0 + pi) = (direction q + direction q0) + 2 * pi"
      by simp
    finally show ?thesis by simp
  qed
  have c: "(seg_length s - u < 0 \<and> \<not> ea) \<or> (seg_length s - u > seg_length s \<and> \<not> eb)
      \<longleftrightarrow> (u < 0 \<and> \<not> eb) \<or> (u > seg_length s \<and> \<not> ea)"
    by auto
  show ?thesis
    unfolding seg_to_global_def Let_def x' seg_length_flip tr dir ps p
    unfolding Pose_def d u_def[symmetric] q0_def[symmetric]
    using c by auto
qed

subsection \<open>The track at an offset\<close>

lemma seg_to_global_place:
  "seg_to_global s q off eb ea =
     (if (vx (pos q) - off < 0 \<and> \<not> eb) \<or> (vx (pos q) - off > seg_length s \<and> \<not> ea) then None
      else Some (place (seg_travel s (vx (pos q) - off)) q))"
  by (simp add: seg_to_global_def place_def Let_def)

lemma to_global_loop_first:
  assumes "segs \<noteq> []" and "0 \<le> vx (pos q) - off"
    and "vx (pos q) - off \<le> sum_list (map seg_length segs)"
    and "idx + length segs = n"
  shows "to_global_loop segs idx n q off eb ea = Some (place (first_pose segs (vx (pos q) - off)) q)"
  using assms
proof (induction segs "vx (pos q) - off" arbitrary: idx off rule: first_pose.induct)
  case 1
  then show ?case by simp
next
  case (2 s)
  then show ?case by (simp add: seg_to_global_place)
next
  case (3 s s' ss)
  show ?case
  proof (cases "vx (pos q) - off \<le> seg_length s")
    case True
    then show ?thesis using "3.prems" by (simp add: seg_to_global_place)
  next
    case False
    have ni: "idx \<noteq> n - 1" using "3.prems"(4) by simp
    have r: "seg_to_global s q off (eb \<and> idx = 0) (ea \<and> idx = n - 1) = None"
      using False ni by (simp add: seg_to_global_place)
    have e: "vx (pos q) - off - seg_length s = vx (pos q) - (off + seg_length s)" by simp
    have "to_global_loop (s' # ss) (idx + 1) n q (off + seg_length s) eb ea
        = Some (place (first_pose (s' # ss) (vx (pos q) - (off + seg_length s))) q)"
      using False "3.prems" by (intro "3.hyps"[OF False e]) simp_all
    then show ?thesis using r False by (simp add: e)
  qed
qed

lemma last_pose_zero:
  "joined segs \<Longrightarrow> \<forall>t\<in>set segs. 0 \<le> seg_length t \<Longrightarrow> segs \<noteq> []
     \<Longrightarrow> last_pose segs 0 = seg_travel (hd segs) 0"
proof (induction segs rule: joined.induct)
  case 1
  then show ?case by simp
next
  case (2 s)
  then show ?case by simp
next
  case (3 s s' ss)
  show ?case
  proof (cases "0 < seg_length s")
    case True
    then show ?thesis by simp
  next
    case False
    with "3.prems" have z: "seg_length s = 0" by simp
    have "last_pose (s' # ss) 0 = seg_travel s' 0"
      using "3.IH" "3.prems" by simp
    then show ?thesis using "3.prems"(1) z by simp
  qed
qed

lemma first_pose_last_pose:
  "joined segs \<Longrightarrow> \<forall>t\<in>set segs. 0 \<le> seg_length t \<Longrightarrow> first_pose segs u = last_pose segs u"
proof (induction segs arbitrary: u rule: joined.induct)
  case 1
  then show ?case by simp
next
  case (2 s)
  then show ?case by simp
next
  case (3 s s' ss)
  have ih: "first_pose (s' # ss) v = last_pose (s' # ss) v" for v
    using "3.IH" "3.prems" by simp
  consider "u < seg_length s" | "u = seg_length s" | "seg_length s < u" by linarith
  then show ?case
  proof cases
    case 1
    then show ?thesis by simp
  next
    case 2
    have "last_pose (s' # ss) 0 = seg_travel (hd (s' # ss)) 0"
      using "3.prems" by (intro last_pose_zero) simp_all
    then show ?thesis using 2 "3.prems"(1) by simp
  next
    case 3
    then show ?thesis using ih by simp
  qed
qed

lemma first_pose_append:
  "as \<noteq> [] \<Longrightarrow> bs \<noteq> [] \<Longrightarrow> \<forall>t\<in>set as. 0 \<le> seg_length t \<Longrightarrow>
     first_pose (as @ bs) v =
       (if v \<le> sum_list (map seg_length as) then first_pose as v
        else first_pose bs (v - sum_list (map seg_length as)))"
proof (induction as arbitrary: v)
  case Nil
  then show ?case by simp
next
  case (Cons a as)
  obtain b bs' where bs: "bs = b # bs'" using Cons.prems(2) by (cases bs) auto
  show ?case
  proof (cases as)
    case Nil
    then show ?thesis by (simp add: bs)
  next
    case (Cons a' as')
    have nn: "0 \<le> sum_list (map seg_length as)"
      using Cons.prems(3) by (intro sum_list_nonneg) auto
    have ih: "first_pose (as @ bs) w =
       (if w \<le> sum_list (map seg_length as) then first_pose as w
        else first_pose bs (w - sum_list (map seg_length as)))" for w
      using Cons.prems Cons by (intro Cons.IH) simp_all
    have "first_pose ((a # as) @ bs) v =
        (if v \<le> seg_length a then seg_travel a v else first_pose (as @ bs) (v - seg_length a))"
      by (simp add: Cons)
    moreover have "first_pose (a # as) v =
        (if v \<le> seg_length a then seg_travel a v else first_pose as (v - seg_length a))"
      by (simp add: Cons)
    ultimately show ?thesis using nn by (simp add: ih algebra_simps)
  qed
qed

lemma last_pose_append:
  "as \<noteq> [] \<Longrightarrow> bs \<noteq> [] \<Longrightarrow> \<forall>t\<in>set as. 0 \<le> seg_length t \<Longrightarrow>
     last_pose (as @ bs) v =
       (if v < sum_list (map seg_length as) then last_pose as v
        else last_pose bs (v - sum_list (map seg_length as)))"
proof (induction as arbitrary: v)
  case Nil
  then show ?case by simp
next
  case (Cons a as)
  obtain b bs' where bs: "bs = b # bs'" using Cons.prems(2) by (cases bs) auto
  show ?case
  proof (cases as)
    case Nil
    then show ?thesis by (simp add: bs)
  next
    case (Cons a' as')
    have nn: "0 \<le> sum_list (map seg_length as)"
      using Cons.prems(3) by (intro sum_list_nonneg) auto
    have ih: "last_pose (as @ bs) w =
       (if w < sum_list (map seg_length as) then last_pose as w
        else last_pose bs (w - sum_list (map seg_length as)))" for w
      using Cons.prems Cons by (intro Cons.IH) simp_all
    have "last_pose ((a # as) @ bs) v =
        (if v < seg_length a then seg_travel a v else last_pose (as @ bs) (v - seg_length a))"
      by (simp add: Cons)
    moreover have "last_pose (a # as) v =
        (if v < seg_length a then seg_travel a v else last_pose as (v - seg_length a))"
      by (simp add: Cons)
    ultimately show ?thesis using nn by (simp add: ih algebra_simps)
  qed
qed

lemma sum_length_flipped [simp]:
  "sum_list (map seg_length (rev (map seg_flip segs))) = sum_list (map seg_length segs)"
  by (simp add: rev_map[symmetric] comp_def)

lemma first_pose_flipped:
  "segs \<noteq> [] \<Longrightarrow> \<forall>t\<in>set segs. 0 \<le> seg_length t \<Longrightarrow>
     first_pose (rev (map seg_flip segs)) (sum_list (map seg_length segs) - u) = reverse (last_pose segs u)"
proof (induction segs arbitrary: u)
  case Nil
  then show ?case by simp
next
  case (Cons s rest)
  show ?case
  proof (cases rest)
    case Nil
    then show ?thesis by (simp add: seg_travel_flip)
  next
    case (Cons s' ss)
    define as where "as = rev (map seg_flip rest)"
    have ne: "as \<noteq> []" by (simp add: as_def Cons)
    have nn: "\<forall>t\<in>set as. 0 \<le> seg_length t" using Cons.prems(2) by (auto simp: as_def)
    have sa: "sum_list (map seg_length as) = sum_list (map seg_length rest)" by (simp add: as_def)
    have ih: "first_pose as (sum_list (map seg_length rest) - w) = reverse (last_pose rest w)" for w
      unfolding as_def using Cons.prems(2) Cons by (intro Cons.IH) simp_all
    have "first_pose (rev (map seg_flip (s # rest))) (sum_list (map seg_length (s # rest)) - u)
        = first_pose (as @ [seg_flip s]) (seg_length s + sum_list (map seg_length rest) - u)"
      by (simp add: as_def)
    also have "\<dots> = (if seg_length s + sum_list (map seg_length rest) - u \<le> sum_list (map seg_length rest)
          then first_pose as (seg_length s + sum_list (map seg_length rest) - u)
          else first_pose [seg_flip s] (seg_length s + sum_list (map seg_length rest) - u
                 - sum_list (map seg_length rest)))"
      using ne nn by (subst first_pose_append) (simp_all add: sa)
    also have "\<dots> = (if u < seg_length s then reverse (seg_travel s u)
          else reverse (last_pose rest (u - seg_length s)))"
    proof (cases "u < seg_length s")
      case True
      have "seg_length s + sum_list (map seg_length rest) - u - sum_list (map seg_length rest)
          = seg_length s - u" by simp
      then show ?thesis using True by (simp add: seg_travel_flip)
    next
      case False
      have e: "seg_length s + sum_list (map seg_length rest) - u
          = sum_list (map seg_length rest) - (u - seg_length s)" by simp
      from False ih[of "u - seg_length s"] show ?thesis unfolding e by simp
    qed
    also have "\<dots> = reverse (last_pose (s # rest) u)"
      by (simp add: Cons)
    finally show ?thesis .
  qed
qed

lemma place_mirrored: "place (reverse t) (mirrored len q) = place t q"
proof -
  have p: "v_add (pos t) (v_scale (ortho (polar (py_mod (direction t + pi) (2 * pi)) 1)) (- vy (pos q)))
      = v_add (pos t) (v_scale (ortho (polar (direction t) 1)) (vy (pos q)))"
    unfolding polar_reversed by (simp add: v_neg_def ortho_def v_scale_def polar_def)
  have "py_mod (py_mod (direction q + pi) (2 * pi) + py_mod (direction t + pi) (2 * pi)) (2 * pi)
      = py_mod (direction q + pi + (direction t + pi)) (2 * pi)"
    by simp
  also have "direction q + pi + (direction t + pi) = (direction q + direction t) + 2 * pi"
    by simp
  also have "py_mod ((direction q + direction t) + 2 * pi) (2 * pi) = py_mod (direction q + direction t) (2 * pi)"
    by (rule py_mod_full_turn)
  finally have d: "py_mod (py_mod (direction q + pi) (2 * pi) + py_mod (direction t + pi) (2 * pi)) (2 * pi)
      = py_mod (direction q + direction t) (2 * pi)" .
  have "place (reverse t) (mirrored len q) =
      RawPose (v_add (pos t) (v_scale (ortho (polar (py_mod (direction t + pi) (2 * pi)) 1)) (- vy (pos q))))
        (py_mod (py_mod (direction q + pi) (2 * pi) + py_mod (direction t + pi) (2 * pi)) (2 * pi))"
    by (simp only: place_def reverse_def mirrored_def Pose_def pose.sel vector.sel)
  then show ?thesis
    unfolding p d by (simp add: place_def Pose_def)
qed

lemma place_shift:
  "place t (RawPose (Vector (vx (pos q) + d) (vy (pos q))) (direction q)) = place t q"
  by (simp add: place_def)

text \<open>The three ways contraction changes what an object's pose is computed from.\<close>

lemma track_flipped:
  assumes "segs \<noteq> []" and "\<forall>t\<in>set segs. 0 \<le> seg_length t" and "joined segs"
    and "len = sum_list (map seg_length segs)"
  shows "place (first_pose (rev (map seg_flip segs)) (vx (pos (mirrored len q)))) (mirrored len q)
           = place (first_pose segs (vx (pos q))) q"
proof -
  have "vx (pos (mirrored len q)) = sum_list (map seg_length segs) - vx (pos q)"
    by (simp add: mirrored_def assms(4))
  then have "first_pose (rev (map seg_flip segs)) (vx (pos (mirrored len q)))
      = reverse (last_pose segs (vx (pos q)))"
    using first_pose_flipped[OF assms(1,2)] by simp
  also have "\<dots> = reverse (first_pose segs (vx (pos q)))"
    using first_pose_last_pose[OF assms(3,2)] by simp
  finally show ?thesis by (simp add: place_mirrored)
qed

lemma track_extended:
  assumes "segs1 \<noteq> []" and "segs2 \<noteq> []" and "\<forall>t\<in>set segs1. 0 \<le> seg_length t"
    and "u \<le> sum_list (map seg_length segs1)"
  shows "first_pose (segs1 @ segs2) u = first_pose segs1 u"
  using assms by (simp add: first_pose_append)

lemma track_appended:
  assumes "segs1 \<noteq> []" and "segs2 \<noteq> []" and "\<forall>t\<in>set segs1. 0 \<le> seg_length t"
    and "\<forall>t\<in>set segs2. 0 \<le> seg_length t" and "joined (segs1 @ segs2)" and "joined segs2"
    and "0 \<le> u"
  shows "first_pose (segs1 @ segs2) (u + sum_list (map seg_length segs1)) = first_pose segs2 u"
proof -
  have nn: "\<forall>t\<in>set (segs1 @ segs2). 0 \<le> seg_length t" using assms(3,4) by auto
  have "first_pose (segs1 @ segs2) (u + sum_list (map seg_length segs1))
      = last_pose (segs1 @ segs2) (u + sum_list (map seg_length segs1))"
    by (rule first_pose_last_pose[OF assms(5) nn])
  also have "\<dots> = last_pose segs2 u"
    using assms(1,2,3,7) by (simp add: last_pose_append)
  also have "\<dots> = first_pose segs2 u"
    by (rule first_pose_last_pose[OF assms(6,4), symmetric])
  finally show ?thesis .
qed

subsection \<open>Chains of segments that stay joined\<close>

lemma joined_append:
  "as \<noteq> [] \<Longrightarrow> bs \<noteq> [] \<Longrightarrow>
     joined (as @ bs) \<longleftrightarrow> joined as \<and> joined bs
        \<and> seg_travel (last as) (seg_length (last as)) = seg_travel (hd bs) 0"
proof (induction as rule: joined.induct)
  case 1
  then show ?case by simp
next
  case (2 s)
  then show ?case by (cases bs) auto
next
  case (3 s s' ss)
  then show ?case by auto
qed

lemma seg_travel_flip_begin: "seg_travel (seg_flip s) 0 = reverse (seg_travel s (seg_length s))"
  using seg_travel_flip[of s "seg_length s"] by simp

lemma seg_travel_flip_end: "seg_travel (seg_flip s) (seg_length s) = reverse (seg_travel s 0)"
  using seg_travel_flip[of s 0] by simp

lemma joined_flipped: "joined segs \<Longrightarrow> joined (rev (map seg_flip segs))"
proof (induction segs rule: joined.induct)
  case 1
  then show ?case by simp
next
  case (2 s)
  then show ?case by simp
next
  case (3 s s' ss)
  have a: "joined (rev (map seg_flip (s' # ss)))" using 3 by simp
  have l: "last (rev (map seg_flip (s' # ss))) = seg_flip s'" by simp
  have "joined (rev (map seg_flip (s' # ss)) @ [seg_flip s])"
    using a "3.prems"
    by (subst joined_append) (simp_all only: l seg_length_flip seg_travel_flip_begin seg_travel_flip_end
        list.sel joined.simps, simp_all)
  then show ?case by simp
qed

subsection \<open>Poses that run into a node\<close>

lemma reverse_reverse_Pose: "reverse (reverse (Pose v d)) = Pose v d"
proof -
  have "py_mod (py_mod (py_mod d (2 * pi) + pi) (2 * pi) + pi) (2 * pi) = py_mod (d + pi + pi) (2 * pi)"
    by simp
  also have "d + pi + pi = d + 2 * pi" by simp
  also have "py_mod (d + 2 * pi) (2 * pi) = py_mod d (2 * pi)" by (rule py_mod_full_turn)
  finally show ?thesis by (simp only: reverse_def Pose_def pose.sel)
qed

lemma reverse_reverse_reverse: "reverse (reverse (reverse p)) = reverse p"
  unfolding reverse_def[of p] by (rule reverse_reverse_Pose)

lemma reverse_reverse_travel: "reverse (reverse (seg_travel s u)) = seg_travel s u"
  by (simp only: seg_travel_def Let_def reverse_reverse_Pose if_distrib[of "\<lambda>p. reverse (reverse p)"] cong: if_cong)

lemma into_normal: "p \<in> set (into g n) \<Longrightarrow> reverse (reverse p) = p"
  by (auto simp: into_def edge_last_def edge_first_def reverse_reverse_travel reverse_reverse_reverse)

lemma mset_map_remove1:
  "x \<in> set l \<Longrightarrow> mset (map f l) = add_mset (f x) (mset (map f (remove1 x l)))"
  by (induction l) auto

lemma mset_pair: "mset l = {#p, q#} \<Longrightarrow> l = [p, q] \<or> l = [q, p]"
proof -
  assume a: "mset l = {#p, q#}"
  then have "length l = 2" using mset_eq_length[of l "[p, q]"] by simp
  then obtain x y where l: "l = [x, y]"
    by (cases l) (auto simp: length_Suc_conv)
  with a show ?thesis by (auto simp: add_eq_conv_ex)
qed

lemma opposite_perm:
  assumes "mset l' = mset l" and "\<forall>p\<in>set l. reverse (reverse p) = p" and "opposite l"
  shows "opposite l'"
  unfolding opposite_def
proof (intro allI impI)
  fix p q
  assume l': "l' = [p, q]"
  with assms(1) have "mset l = {#p, q#}" by simp
  from mset_pair[OF this] show "q = reverse p"
  proof
    assume "l = [p, q]"
    with assms(3) show ?thesis by (simp add: opposite_def)
  next
    assume l: "l = [q, p]"
    with assms(3) have "p = reverse q" by (simp add: opposite_def)
    moreover have "reverse (reverse q) = q" using assms(2) l by simp
    ultimately show ?thesis by simp
  qed
qed

subsection \<open>What flipping an edge changes\<close>

lemma ebind_Inr: "(ebind m f = Inr y) = (\<exists>a. m = Inr a \<and> f a = Inr y)"
  by (cases m) (simp_all add: ebind_def)

lemma upd_vec_twice: "upd_vec v f2 (upd_vec v f1 g) = upd_vec v (\<lambda>p. f2 (f1 p)) g"
  by (simp add: upd_vec_def)

lemma edge_length_upd_obj [simp]: "edge_length (upd_obj obj f g) e = edge_length g e"
  by (simp add: edge_length_def upd_obj_def split: option.splits)

lemma flip_objects_Cons:
  "flip_objects e (obj # objs) g =
     (if relative_to (obj_heap g obj) = Some e then
        ebind (edge_length g e)
          (\<lambda>len. flip_objects e objs
             (upd_vec (obj_pos (obj_heap g obj)) (\<lambda>p. Vector (len - vx p) (- vy p))
                (upd_obj obj (\<lambda>ob. ob\<lparr>obj_direction := py_mod (obj_direction (obj_heap g obj) + pi) (2 * pi)\<rparr>) g)))
      else flip_objects e objs g)"
proof -
  have d: "direction (reverse (obj_pose g obj)) = py_mod (obj_direction (obj_heap g obj) + pi) (2 * pi)"
    by (simp add: reverse_def Pose_def obj_pose_def)
  have p: "obj_pos (obj_heap (upd_obj obj (\<lambda>ob. ob\<lparr>obj_direction := x\<rparr>) g) obj) = obj_pos (obj_heap g obj)" for x
    by (simp add: upd_obj_def)
  show ?thesis
    by (simp add: Let_def d p upd_vec_twice)
qed

lemma flip_objects_frame:
  "flip_objects e os g = Inr g' \<Longrightarrow>
     node_heap g' = node_heap g \<and> edge_heap g' = edge_heap g \<and> nodes g' = nodes g
       \<and> edges g' = edges g \<and> (\<forall>obj. relative_to (obj_heap g' obj) = relative_to (obj_heap g obj))
       \<and> (\<forall>obj. obj_pos (obj_heap g' obj) = obj_pos (obj_heap g obj))"
proof (induction os arbitrary: g)
  case Nil
  then show ?case by simp
next
  case (Cons a os)
  show ?case
  proof (cases "relative_to (obj_heap g a) = Some e")
    case True
    with Cons.prems obtain len where
      "flip_objects e os
         (upd_vec (obj_pos (obj_heap g a)) (\<lambda>p. Vector (len - vx p) (- vy p))
            (upd_obj a (\<lambda>ob. ob\<lparr>obj_direction := py_mod (obj_direction (obj_heap g a) + pi) (2 * pi)\<rparr>) g)) = Inr g'"
      by (auto simp: flip_objects_Cons ebind_Inr simp del: flip_objects.simps(2))
    from Cons.IH[OF this] show ?thesis by (simp add: upd_obj_def upd_vec_def)
  next
    case False
    with Cons.prems have "flip_objects e os g = Inr g'" by simp
    from Cons.IH[OF this] show ?thesis .
  qed
qed

lemma flip_objects_pose:
  "flip_objects e os g = Inr g' \<Longrightarrow> distinct os \<Longrightarrow> segments (edge_heap g e) \<noteq> [] \<Longrightarrow>
   own_vector g obj \<Longrightarrow>
     obj_pose g' obj =
       (if obj \<in> set os \<and> relative_to (obj_heap g obj) = Some e
        then mirrored (sum_list (map seg_length (segments (edge_heap g e)))) (obj_pose g obj)
        else obj_pose g obj)"
proof (induction os arbitrary: g)
  case Nil
  then show ?case by (simp add: obj_pose_def)
next
  case (Cons a os)
  define len where "len = sum_list (map seg_length (segments (edge_heap g e)))"
  show ?case
  proof (cases "relative_to (obj_heap g a) = Some e")
    case True
    define g1 where "g1 = upd_vec (obj_pos (obj_heap g a)) (\<lambda>p. Vector (len - vx p) (- vy p))
            (upd_obj a (\<lambda>ob. ob\<lparr>obj_direction := py_mod (obj_direction (obj_heap g a) + pi) (2 * pi)\<rparr>) g)"
    have el: "edge_length g e = Inr len"
      using Cons.prems(3) by (simp add: edge_length_def len_def)
    from Cons.prems(1) True have f: "flip_objects e os g1 = Inr g'"
      by (simp add: flip_objects_Cons ebind_def el g1_def del: flip_objects.simps(2))
    have s1: "segments (edge_heap g1 e) = segments (edge_heap g e)"
      by (simp add: g1_def upd_obj_def upd_vec_def)
    have r1: "relative_to (obj_heap g1 x) = relative_to (obj_heap g x)"
      and p1: "obj_pos (obj_heap g1 x) = obj_pos (obj_heap g x)" for x
      by (simp_all add: g1_def upd_obj_def upd_vec_def)
    have own1: "own_vector g1 obj"
      using Cons.prems(4) by (simp add: own_vector_def r1 p1)
    have q1: "obj_pose g1 obj = (if obj = a then mirrored len (obj_pose g obj) else obj_pose g obj)"
    proof (cases "obj = a")
      case True
      then show ?thesis
        by (simp add: obj_pose_def g1_def upd_obj_def upd_vec_def mirrored_def)
    next
      case False
      then have "obj_pos (obj_heap g a) \<noteq> obj_pos (obj_heap g obj)"
        using Cons.prems(4) \<open>relative_to (obj_heap g a) = Some e\<close> by (auto simp: own_vector_def)
      then show ?thesis using False
        by (simp add: obj_pose_def g1_def upd_obj_def upd_vec_def)
    qed
    have "obj_pose g' obj =
       (if obj \<in> set os \<and> relative_to (obj_heap g1 obj) = Some e
        then mirrored (sum_list (map seg_length (segments (edge_heap g1 e)))) (obj_pose g1 obj)
        else obj_pose g1 obj)"
      using Cons.prems(2,3) own1 by (intro Cons.IH[OF f]) (simp_all add: s1)
    then show ?thesis
      unfolding s1 r1 q1 len_def[symmetric] using Cons.prems(2) True by (cases "obj = a") auto
  next
    case False
    with Cons.prems have f: "flip_objects e os g = Inr g'" by simp
    have "obj_pose g' obj =
       (if obj \<in> set os \<and> relative_to (obj_heap g obj) = Some e
        then mirrored (sum_list (map seg_length (segments (edge_heap g e)))) (obj_pose g obj)
        else obj_pose g obj)"
      using Cons.prems(2,3,4) by (intro Cons.IH[OF f]) simp_all
    then show ?thesis using False by auto
  qed
qed

text \<open>The graph that \<^verbatim>\<open>Edge.flip\<close> has built when it reaches its loop over the objects.\<close>

lemma flip_stages:
  assumes "flip e g = Inr g'"
  obtains g1 where "flip_objects e (edge_scenery_objects (edge_heap g e)) g1 = Inr g'"
    and "edge_heap g1 = (edge_heap g)
           (e := (edge_heap g e)\<lparr>source := target (edge_heap g e), target := source (edge_heap g e),
                                 segments := rev (map seg_flip (segments (edge_heap g e)))\<rparr>)"
    and "obj_heap g1 = obj_heap g" and "vec_heap g1 = vec_heap g"
    and "nodes g1 = nodes g" and "edges g1 = edges g"
    and "\<And>k. source (edge_heap g e) = Some k \<Longrightarrow> e \<in> set (outgoing (node_heap g k))"
    and "\<And>k. target (edge_heap g e) = Some k \<Longrightarrow> e \<in> set (incoming (node_heap g k))"
    and "\<And>k. outgoing (node_heap g1 k) =
           (if source (edge_heap g e) = Some k then remove1 e (outgoing (node_heap g k))
            else outgoing (node_heap g k)) @ (if target (edge_heap g e) = Some k then [e] else [])"
    and "\<And>k. incoming (node_heap g1 k) =
           (if target (edge_heap g e) = Some k then remove1 e (incoming (node_heap g k))
            else incoming (node_heap g k)) @ (if source (edge_heap g e) = Some k then [e] else [])"
proof -
  from assms obtain ga gb where
    a: "outgoing_remove (source (edge_heap g e)) e g = Inr ga"
    and b: "incoming_remove (target (edge_heap ga e)) e ga = Inr gb"
    and c: "(let g = upd_edge e (\<lambda>ed. ed\<lparr>source := target ed, target := source ed\<rparr>) gb;
                 g = incoming_append (target (edge_heap g e)) e g;
                 g = outgoing_append (source (edge_heap g e)) e g;
                 g = upd_edge e (\<lambda>ed. ed\<lparr>segments := map seg_flip (segments ed)\<rparr>) g;
                 g = upd_edge e (\<lambda>ed. ed\<lparr>segments := rev (segments ed)\<rparr>) g
             in flip_objects e (edge_scenery_objects (edge_heap g e)) g) = Inr g'"
    by (auto simp: flip_def ebind_Inr)
  have ga: "edge_heap ga = edge_heap g" "obj_heap ga = obj_heap g" "nodes ga = nodes g" "edges ga = edges g"
    "\<And>k. incoming (node_heap ga k) = incoming (node_heap g k)"
    "\<And>k. outgoing (node_heap ga k) =
           (if source (edge_heap g e) = Some k then remove1 e (outgoing (node_heap g k))
            else outgoing (node_heap g k))"
    "\<And>k. source (edge_heap g e) = Some k \<Longrightarrow> e \<in> set (outgoing (node_heap g k))"
    "vec_heap ga = vec_heap g"
    using a by (auto simp: outgoing_remove_def ebind_Inr list_remove_def upd_node_def
        split: option.splits if_splits)
  have gb: "edge_heap gb = edge_heap g" "obj_heap gb = obj_heap g" "nodes gb = nodes g" "edges gb = edges g"
    "\<And>k. outgoing (node_heap gb k) = outgoing (node_heap ga k)"
    "\<And>k. incoming (node_heap gb k) =
           (if target (edge_heap g e) = Some k then remove1 e (incoming (node_heap g k))
            else incoming (node_heap g k))"
    "\<And>k. target (edge_heap g e) = Some k \<Longrightarrow> e \<in> set (incoming (node_heap g k))"
    "vec_heap gb = vec_heap g"
    using b ga(1-5,8) by (auto simp: incoming_remove_def ebind_Inr list_remove_def upd_node_def
        split: option.splits if_splits)
  define g1 where "g1 =
     (let g = upd_edge e (\<lambda>ed. ed\<lparr>source := target ed, target := source ed\<rparr>) gb;
          g = incoming_append (target (edge_heap g e)) e g;
          g = outgoing_append (source (edge_heap g e)) e g;
          g = upd_edge e (\<lambda>ed. ed\<lparr>segments := map seg_flip (segments ed)\<rparr>) g
      in upd_edge e (\<lambda>ed. ed\<lparr>segments := rev (segments ed)\<rparr>) g)"
  have eh: "edge_heap g1 = (edge_heap g)
           (e := (edge_heap g e)\<lparr>source := target (edge_heap g e), target := source (edge_heap g e),
                                 segments := rev (map seg_flip (segments (edge_heap g e)))\<rparr>)"
    by (auto simp: g1_def Let_def upd_edge_def incoming_append_def outgoing_append_def upd_node_def gb(1)
        split: option.splits)
  have fo: "flip_objects e (edge_scenery_objects (edge_heap g e)) g1 = Inr g'"
  proof -
    have "flip_objects e (edge_scenery_objects (edge_heap g1 e)) g1 = Inr g'"
      using c by (simp add: g1_def Let_def)
    then show ?thesis by (simp add: eh)
  qed
  have oh: "obj_heap g1 = obj_heap g" "vec_heap g1 = vec_heap g" "nodes g1 = nodes g" "edges g1 = edges g"
    by (auto simp: g1_def Let_def upd_edge_def incoming_append_def outgoing_append_def upd_node_def gb(2,3,4,8)
        split: option.splits)
  have out: "outgoing (node_heap g1 k) =
           (if source (edge_heap g e) = Some k then remove1 e (outgoing (node_heap g k))
            else outgoing (node_heap g k)) @ (if target (edge_heap g e) = Some k then [e] else [])" for k
    by (auto simp: g1_def Let_def upd_edge_def incoming_append_def outgoing_append_def upd_node_def
        gb(1,5) ga(6) split: option.splits)
  have inc: "incoming (node_heap g1 k) =
           (if target (edge_heap g e) = Some k then remove1 e (incoming (node_heap g k))
            else incoming (node_heap g k)) @ (if source (edge_heap g e) = Some k then [e] else [])" for k
    by (auto simp: g1_def Let_def upd_edge_def incoming_append_def outgoing_append_def upd_node_def
        gb(1,6) split: option.splits)
  show ?thesis
    using that[OF fo eh oh ga(7) gb(7) out inc] .
qed

lemma global_pose_on_edge:
  assumes "relative_to (obj_heap g obj) = Some e" and "on_edge g obj"
  shows "global_pose g obj =
       Inr (Some (place (first_pose (segments (edge_heap g e)) (vx (pos (obj_pose g obj)))) (obj_pose g obj)))"
proof -
  from assms have ne: "segments (edge_heap g e) \<noteq> []" and x0: "0 \<le> vx (pos (obj_pose g obj)) - 0"
    and x1: "vx (pos (obj_pose g obj)) - 0 \<le> sum_list (map seg_length (segments (edge_heap g e)))"
    by (simp_all add: on_edge_def)
  have "to_global_loop (segments (edge_heap g e)) 0 (length (segments (edge_heap g e))) (obj_pose g obj) 0 True True
      = Some (place (first_pose (segments (edge_heap g e)) (vx (pos (obj_pose g obj)) - 0)) (obj_pose g obj))"
    using ne x0 x1 by (rule to_global_loop_first) simp
  then show ?thesis
    using assms(1) ne by (simp add: global_pose_def edge_to_global_def Let_def ebind_def)
qed

lemma global_pose_free:
  "relative_to (obj_heap g obj) = None \<Longrightarrow> global_pose g obj = Inr (Some (obj_pose g obj))"
  by (simp add: global_pose_def)

lemma in_remove1D: "x \<in> set (remove1 e xs) \<Longrightarrow> x \<in> set xs"
  using set_remove1_subset by fast

lemma flip_lists:
  assumes "flip e g = Inr g'"
  shows "outgoing (node_heap g' k) =
           (if source (edge_heap g e) = Some k then remove1 e (outgoing (node_heap g k))
            else outgoing (node_heap g k)) @ (if target (edge_heap g e) = Some k then [e] else [])"
    and "incoming (node_heap g' k) =
           (if target (edge_heap g e) = Some k then remove1 e (incoming (node_heap g k))
            else incoming (node_heap g k)) @ (if source (edge_heap g e) = Some k then [e] else [])"
    and "source (edge_heap g e) = Some k \<Longrightarrow> e \<in> set (outgoing (node_heap g k))"
    and "target (edge_heap g e) = Some k \<Longrightarrow> e \<in> set (incoming (node_heap g k))"
    and "edge_heap g' = (edge_heap g)
           (e := (edge_heap g e)\<lparr>source := target (edge_heap g e), target := source (edge_heap g e),
                                 segments := rev (map seg_flip (segments (edge_heap g e)))\<rparr>)"
    and "nodes g' = nodes g"
    and "relative_to (obj_heap g' obj) = relative_to (obj_heap g obj)"
    and "obj_pos (obj_heap g' obj) = obj_pos (obj_heap g obj)"
proof -
  show "outgoing (node_heap g' k) =
           (if source (edge_heap g e) = Some k then remove1 e (outgoing (node_heap g k))
            else outgoing (node_heap g k)) @ (if target (edge_heap g e) = Some k then [e] else [])"
    by (rule flip_stages[OF assms]) (use flip_objects_frame in metis)
  show "incoming (node_heap g' k) =
           (if target (edge_heap g e) = Some k then remove1 e (incoming (node_heap g k))
            else incoming (node_heap g k)) @ (if source (edge_heap g e) = Some k then [e] else [])"
    by (rule flip_stages[OF assms]) (use flip_objects_frame in metis)
  show "source (edge_heap g e) = Some k \<Longrightarrow> e \<in> set (outgoing (node_heap g k))"
    by (rule flip_stages[OF assms]) blast
  show "target (edge_heap g e) = Some k \<Longrightarrow> e \<in> set (incoming (node_heap g k))"
    by (rule flip_stages[OF assms]) blast
  show "edge_heap g' = (edge_heap g)
           (e := (edge_heap g e)\<lparr>source := target (edge_heap g e), target := source (edge_heap g e),
                                 segments := rev (map seg_flip (segments (edge_heap g e)))\<rparr>)"
    by (rule flip_stages[OF assms]) (use flip_objects_frame in metis)
  show "nodes g' = nodes g"
    by (rule flip_stages[OF assms]) (use flip_objects_frame in metis)
  show "relative_to (obj_heap g' obj) = relative_to (obj_heap g obj)"
    by (rule flip_stages[OF assms]) (use flip_objects_frame in metis)
  show "obj_pos (obj_heap g' obj) = obj_pos (obj_heap g obj)"
    by (rule flip_stages[OF assms]) (use flip_objects_frame in metis)
qed

lemma flip_pose:
  assumes f: "flip e g = Inr g'" and ok: "objs_ok g" and ne: "segments (edge_heap g e) \<noteq> []"
    and own: "own_vector g obj"
  shows "obj_pose g' obj =
       (if relative_to (obj_heap g obj) = Some e
        then mirrored (sum_list (map seg_length (segments (edge_heap g e)))) (obj_pose g obj)
        else obj_pose g obj)"
proof (rule flip_stages[OF f])
  fix g1
  assume fo: "flip_objects e (edge_scenery_objects (edge_heap g e)) g1 = Inr g'"
    and eh: "edge_heap g1 = (edge_heap g)
           (e := (edge_heap g e)\<lparr>source := target (edge_heap g e), target := source (edge_heap g e),
                                 segments := rev (map seg_flip (segments (edge_heap g e)))\<rparr>)"
    and oh: "obj_heap g1 = obj_heap g" and vh: "vec_heap g1 = vec_heap g"
  have dist: "distinct (edge_scenery_objects (edge_heap g e))" using ok by (simp add: objs_ok_def)
  have mem: "obj \<in> set (edge_scenery_objects (edge_heap g e)) \<longleftrightarrow> relative_to (obj_heap g obj) = Some e"
    using ok by (simp add: objs_ok_def)
  have s1: "segments (edge_heap g1 e) = rev (map seg_flip (segments (edge_heap g e)))" by (simp add: eh)
  have own1: "own_vector g1 obj" using own by (simp add: own_vector_def oh)
  have q: "obj_pose g1 obj = obj_pose g obj" by (simp add: obj_pose_def oh vh)
  show ?thesis
    using flip_objects_pose[OF fo dist _ own1] ne by (simp add: s1 oh q mem)
qed

lemma map_agree: "e \<notin> set l \<Longrightarrow> (\<And>x. x \<noteq> e \<Longrightarrow> f' x = f x) \<Longrightarrow> map f' l = map f l"
  by (induction l) auto

lemma mset_into_flipped:
  assumes d: "distinct I" "distinct Ob"
    and ag: "\<And>x. x \<noteq> e \<Longrightarrow> E' x = E x" "\<And>x. x \<noteq> e \<Longrightarrow> R' x = R x"
    and sw: "E' e = R e" "R' e = E e"
    and a: "a \<longleftrightarrow> e \<in> set I" and b: "b \<longleftrightarrow> e \<in> set Ob"
  shows "mset (map E' ((if a then remove1 e I else I) @ (if b then [e] else []))
               @ map R' ((if b then remove1 e Ob else Ob) @ (if a then [e] else [])))
       = mset (map E I @ map R Ob)"
proof -
  have i: "mset (map E' (if a then remove1 e I else I)) + (if a then {#E e#} else {#}) = mset (map E I)"
  proof (cases a)
    case True
    then have m: "e \<in> set I" using a by simp
    have "e \<notin> set (remove1 e I)" using d(1) by simp
    then have "map E' (remove1 e I) = map E (remove1 e I)" using ag(1) by (rule map_agree)
    then have "mset (map E' (remove1 e I)) = mset (map E (remove1 e I))" by (simp only:)
    then show ?thesis using True mset_map_remove1[OF m, of E] by simp
  next
    case False
    then have "e \<notin> set I" using a by simp
    then have "map E' I = map E I" using ag(1) by (rule map_agree)
    then have "mset (map E' I) = mset (map E I)" by (simp only:)
    then show ?thesis using False by simp
  qed
  have o: "mset (map R' (if b then remove1 e Ob else Ob)) + (if b then {#R e#} else {#}) = mset (map R Ob)"
  proof (cases b)
    case True
    then have m: "e \<in> set Ob" using b by simp
    have "e \<notin> set (remove1 e Ob)" using d(2) by simp
    then have "map R' (remove1 e Ob) = map R (remove1 e Ob)" using ag(2) by (rule map_agree)
    then have "mset (map R' (remove1 e Ob)) = mset (map R (remove1 e Ob))" by (simp only:)
    then show ?thesis using True mset_map_remove1[OF m, of R] by simp
  next
    case False
    then have "e \<notin> set Ob" using b by simp
    then have "map R' Ob = map R Ob" using ag(2) by (rule map_agree)
    then have "mset (map R' Ob) = mset (map R Ob)" by (simp only:)
    then show ?thesis using False by simp
  qed
  have "mset (map E' ((if a then remove1 e I else I) @ (if b then [e] else []))
               @ map R' ((if b then remove1 e Ob else Ob) @ (if a then [e] else [])))
      = (mset (map E' (if a then remove1 e I else I)) + (if a then {#E e#} else {#}))
        + (mset (map R' (if b then remove1 e Ob else Ob)) + (if b then {#R e#} else {#}))"
    by (simp add: sw)
  then show ?thesis by (simp only: i o mset_append)
qed

lemma flip_keeps:
  assumes f: "flip e g = Inr g'" and wf: "well_formed g" and att: "attached g e"
  shows "well_formed g'"
    and "on_edge g obj \<Longrightarrow> own_vector g obj
           \<Longrightarrow> on_edge g' obj \<and> own_vector g' obj \<and> global_pose g' obj = global_pose g obj"
    and "nodes g' = nodes g"
proof -
  note fl = flip_lists[OF f]
  define segs where "segs = segments (edge_heap g e)"
  define len where "len = sum_list (map seg_length segs)"
  define src where "src = source (edge_heap g e)"
  define tgt where "tgt = target (edge_heap g e)"
  from wf have ok: "objs_ok g" "lengths_ok g" "segs_ok g" "lists_ok g" "smooth g"
    by (simp_all add: well_formed_def)
  have ne: "segs \<noteq> []" using ok(3) att by (simp add: segs_ok_def segs_def)
  have nn: "\<forall>t\<in>set segs. 0 \<le> seg_length t" using ok(2) by (simp add: lengths_ok_def segs_def)
  have jn: "joined segs" using ok(5) by (simp add: smooth_def segs_def)
  have sg: "segments (edge_heap g' x) = (if x = e then rev (map seg_flip segs) else segments (edge_heap g x))" for x
    by (simp add: fl(5) segs_def)
  have ob: "edge_scenery_objects (edge_heap g' x) = edge_scenery_objects (edge_heap g x)" for x
    by (simp add: fl(5))
  have so: "source (edge_heap g' x) = (if x = e then tgt else source (edge_heap g x))"
    and ta: "target (edge_heap g' x) = (if x = e then src else target (edge_heap g x))" for x
    by (simp_all add: fl(5) src_def tgt_def)
  have dI: "distinct (incoming (node_heap g k))" and dO: "distinct (outgoing (node_heap g k))"
    and mI: "x \<in> set (incoming (node_heap g k)) \<longleftrightarrow> target (edge_heap g x) = Some k"
    and mO: "x \<in> set (outgoing (node_heap g k)) \<longleftrightarrow> source (edge_heap g x) = Some k" for x k
    using ok(4) by (simp_all add: lists_ok_def)
  have inc: "incoming (node_heap g' k) =
           (if tgt = Some k then remove1 e (incoming (node_heap g k))
            else incoming (node_heap g k)) @ (if src = Some k then [e] else [])"
    and out: "outgoing (node_heap g' k) =
           (if src = Some k then remove1 e (outgoing (node_heap g k))
            else outgoing (node_heap g k)) @ (if tgt = Some k then [e] else [])" for k
    by (simp_all add: fl(1,2) src_def tgt_def)
  have "objs_ok g'" using ok(1) by (simp add: objs_ok_def ob fl(7))
  moreover have "lengths_ok g'" using ok(2) by (auto simp: lengths_ok_def sg segs_def)
  moreover have "segs_ok g'"
  proof -
    have "attached g x \<or> x = e" if "attached g' x" for x
      using that by (auto simp: attached_def out inc split: if_splits dest: in_remove1D)
    then show ?thesis using ok(3) att ne by (auto simp: segs_ok_def sg segs_def)
  qed
  moreover have "lists_ok g'"
  proof -
    have ni: "e \<notin> set (if tgt = Some k then remove1 e (incoming (node_heap g k)) else incoming (node_heap g k))" for k
      using dI[of k] mI[of e k] by (simp add: tgt_def)
    have no: "e \<notin> set (if src = Some k then remove1 e (outgoing (node_heap g k)) else outgoing (node_heap g k))" for k
      using dO[of k] mO[of e k] by (simp add: src_def)
    have d1: "distinct (incoming (node_heap g' k))" for k
      using ni[of k] dI[of k] by (simp add: inc split: if_splits)
    have d2: "distinct (outgoing (node_heap g' k))" for k
      using no[of k] dO[of k] by (simp add: out split: if_splits)
    have m1: "x \<in> set (incoming (node_heap g' k)) \<longleftrightarrow> target (edge_heap g' x) = Some k" for x k
    proof (cases "x = e")
      case True
      then show ?thesis using ni[of k] by (simp add: inc ta split: if_splits)
    next
      case False
      then show ?thesis using mI[of x k] by (simp add: inc ta)
    qed
    have m2: "x \<in> set (outgoing (node_heap g' k)) \<longleftrightarrow> source (edge_heap g' x) = Some k" for x k
    proof (cases "x = e")
      case True
      then show ?thesis using no[of k] by (simp add: out so split: if_splits)
    next
      case False
      then show ?thesis using mO[of x k] by (simp add: out so)
    qed
    show ?thesis unfolding lists_ok_def using d1 d2 m1 m2 by blast
  qed
  moreover have "smooth g'"
  proof -
    have j: "joined (segments (edge_heap g' x))" for x
      using ok(5) jn by (simp add: sg smooth_def joined_flipped)
    have el: "edge_last g' x = (if x = e then reverse (edge_first g e) else edge_last g x)" for x
      using ne by (simp add: edge_last_def edge_first_def sg segs_def[symmetric] last_rev hd_map
          seg_travel_flip_end)
    have ef: "reverse (edge_first g' x) = (if x = e then edge_last g e else reverse (edge_first g x))" for x
      using ne by (simp add: edge_last_def edge_first_def sg segs_def[symmetric] hd_rev last_map
          seg_travel_flip_begin reverse_reverse_travel)
    have "opposite (into g' k)" for k
    proof -
      have "mset (map (edge_last g') ((if tgt = Some k then remove1 e (incoming (node_heap g k))
                                        else incoming (node_heap g k)) @ (if src = Some k then [e] else []))
               @ map (\<lambda>x. reverse (edge_first g' x))
                   ((if src = Some k then remove1 e (outgoing (node_heap g k))
                     else outgoing (node_heap g k)) @ (if tgt = Some k then [e] else [])))
          = mset (map (edge_last g) (incoming (node_heap g k))
                  @ map (\<lambda>x. reverse (edge_first g x)) (outgoing (node_heap g k)))"
        using dI[of k] dO[of k]
      proof (rule mset_into_flipped)
        show "tgt = Some k \<longleftrightarrow> e \<in> set (incoming (node_heap g k))" by (simp add: mI tgt_def)
        show "src = Some k \<longleftrightarrow> e \<in> set (outgoing (node_heap g k))" by (simp add: mO src_def)
      qed (simp_all add: el ef)
      then have "mset (into g' k) = mset (into g k)"
        by (simp only: into_def inc out)
      moreover have "\<forall>p\<in>set (into g k). reverse (reverse p) = p"
        using into_normal by blast
      moreover have "opposite (into g k)" using ok(5) by (simp add: smooth_def)
      ultimately show ?thesis by (rule opposite_perm)
    qed
    with j show ?thesis by (simp add: smooth_def)
  qed
  ultimately show "well_formed g'" by (simp add: well_formed_def)
  show "nodes g' = nodes g" by (rule fl(6))
  show "on_edge g' obj \<and> own_vector g' obj \<and> global_pose g' obj = global_pose g obj"
    if on: "on_edge g obj" and own: "own_vector g obj"
  proof -
    have ps: "obj_pose g' obj =
       (if relative_to (obj_heap g obj) = Some e then mirrored len (obj_pose g obj) else obj_pose g obj)"
      using flip_pose[OF f ok(1) _ own] ne by (simp add: segs_def len_def)
    have own': "own_vector g' obj" using own by (simp add: own_vector_def fl(7,8))
    show ?thesis
    proof (cases "relative_to (obj_heap g obj)")
      case None
      then show ?thesis using own' by (simp add: on_edge_def global_pose_free fl(7) ps)
    next
      case (Some x)
      show ?thesis
      proof (cases "x = e")
        case True
        have r: "relative_to (obj_heap g obj) = Some e" "relative_to (obj_heap g' obj) = Some e"
          using Some True by (simp_all add: fl(7))
        have x: "0 \<le> vx (pos (obj_pose g obj))" "vx (pos (obj_pose g obj)) \<le> len"
          using on r(1) by (simp_all add: on_edge_def segs_def len_def)
        have on': "on_edge g' obj"
          using x ne by (simp add: on_edge_def r(2) sg ps r(1) mirrored_def len_def)
        have "global_pose g' obj =
            Inr (Some (place (first_pose (rev (map seg_flip segs)) (vx (pos (mirrored len (obj_pose g obj)))))
                         (mirrored len (obj_pose g obj))))"
          using global_pose_on_edge[OF r(2) on'] by (simp add: sg ps r(1))
        also have "\<dots> = Inr (Some (place (first_pose segs (vx (pos (obj_pose g obj)))) (obj_pose g obj)))"
          using track_flipped[OF ne nn jn len_def] by simp
        also have "\<dots> = global_pose g obj"
          using global_pose_on_edge[OF r(1) on] by (simp add: segs_def)
        finally show ?thesis using on' own' by simp
      next
        case False
        have r: "relative_to (obj_heap g obj) = Some x" "relative_to (obj_heap g' obj) = Some x"
          using Some by (simp_all add: fl(7))
        have on': "on_edge g' obj"
          using on r False by (simp add: on_edge_def sg ps)
        have "global_pose g' obj = global_pose g obj"
          using global_pose_on_edge[OF r(2) on'] global_pose_on_edge[OF r(1) on] False r(1)
          by (simp add: sg ps)
        then show ?thesis using on' own' by simp
      qed
    qed
  qed
qed

subsection \<open>What joining two edges changes\<close>

lemma set_target_effect:
  assumes "set_target e t g = Inr g'"
  shows "obj_heap g' = obj_heap g" and "vec_heap g' = vec_heap g" and "nodes g' = nodes g"
    and "edge_heap g' = (edge_heap g)(e := (edge_heap g e)\<lparr>target := t\<rparr>)"
    and "outgoing (node_heap g' k) = outgoing (node_heap g k)"
    and "incoming (node_heap g' k) =
           (if t = target (edge_heap g e) then incoming (node_heap g k)
            else (if target (edge_heap g e) = Some k then remove1 e (incoming (node_heap g k))
                  else incoming (node_heap g k)) @ (if t = Some k then [e] else []))"
proof -
  have "obj_heap g' = obj_heap g \<and> vec_heap g' = vec_heap g \<and> nodes g' = nodes g
    \<and> edge_heap g' = (edge_heap g)(e := (edge_heap g e)\<lparr>target := t\<rparr>)
    \<and> outgoing (node_heap g' k) = outgoing (node_heap g k)
    \<and> incoming (node_heap g' k) =
           (if t = target (edge_heap g e) then incoming (node_heap g k)
            else (if target (edge_heap g e) = Some k then remove1 e (incoming (node_heap g k))
                  else incoming (node_heap g k)) @ (if t = Some k then [e] else []))"
  proof (cases "t = target (edge_heap g e)")
    case True
    with assms have "g' = g" by (simp add: set_target_def)
    then show ?thesis using True by simp
  next
    case False
    with assms obtain ga where
      a: "incoming_remove (target (edge_heap g e)) e g = Inr ga"
      and b: "g' = upd_edge e (\<lambda>ed. ed\<lparr>target := t\<rparr>) (incoming_append t e ga)"
      by (auto simp: set_target_def ebind_Inr Let_def)
    have ga: "edge_heap ga = edge_heap g" "obj_heap ga = obj_heap g" "vec_heap ga = vec_heap g"
      "nodes ga = nodes g" "outgoing (node_heap ga k) = outgoing (node_heap g k)"
      "incoming (node_heap ga k) =
           (if target (edge_heap g e) = Some k then remove1 e (incoming (node_heap g k))
            else incoming (node_heap g k))"
      using a by (auto simp: incoming_remove_def ebind_Inr list_remove_def upd_node_def
          split: option.splits if_splits)
    show ?thesis
      using False unfolding b
      by (cases t) (simp_all add: upd_edge_def incoming_append_def upd_node_def ga)
  qed
  then show "obj_heap g' = obj_heap g" and "vec_heap g' = vec_heap g" and "nodes g' = nodes g"
    and "edge_heap g' = (edge_heap g)(e := (edge_heap g e)\<lparr>target := t\<rparr>)"
    and "outgoing (node_heap g' k) = outgoing (node_heap g k)"
    and "incoming (node_heap g' k) =
           (if t = target (edge_heap g e) then incoming (node_heap g k)
            else (if target (edge_heap g e) = Some k then remove1 e (incoming (node_heap g k))
                  else incoming (node_heap g k)) @ (if t = Some k then [e] else []))"
    by simp_all
qed

lemma set_source_effect:
  assumes "set_source e t g = Inr g'"
  shows "obj_heap g' = obj_heap g" and "vec_heap g' = vec_heap g" and "nodes g' = nodes g"
    and "edge_heap g' = (edge_heap g)(e := (edge_heap g e)\<lparr>source := t\<rparr>)"
    and "incoming (node_heap g' k) = incoming (node_heap g k)"
    and "outgoing (node_heap g' k) =
           (if t = source (edge_heap g e) then outgoing (node_heap g k)
            else (if source (edge_heap g e) = Some k then remove1 e (outgoing (node_heap g k))
                  else outgoing (node_heap g k)) @ (if t = Some k then [e] else []))"
proof -
  have "obj_heap g' = obj_heap g \<and> vec_heap g' = vec_heap g \<and> nodes g' = nodes g
    \<and> edge_heap g' = (edge_heap g)(e := (edge_heap g e)\<lparr>source := t\<rparr>)
    \<and> incoming (node_heap g' k) = incoming (node_heap g k)
    \<and> outgoing (node_heap g' k) =
           (if t = source (edge_heap g e) then outgoing (node_heap g k)
            else (if source (edge_heap g e) = Some k then remove1 e (outgoing (node_heap g k))
                  else outgoing (node_heap g k)) @ (if t = Some k then [e] else []))"
  proof (cases "t = source (edge_heap g e)")
    case True
    with assms have "g' = g" by (simp add: set_source_def)
    then show ?thesis using True by simp
  next
    case False
    with assms obtain ga where
      a: "outgoing_remove (source (edge_heap g e)) e g = Inr ga"
      and b: "g' = upd_edge e (\<lambda>ed. ed\<lparr>source := t\<rparr>) (outgoing_append t e ga)"
      by (auto simp: set_source_def ebind_Inr Let_def)
    have ga: "edge_heap ga = edge_heap g" "obj_heap ga = obj_heap g" "vec_heap ga = vec_heap g"
      "nodes ga = nodes g" "incoming (node_heap ga k) = incoming (node_heap g k)"
      "outgoing (node_heap ga k) =
           (if source (edge_heap g e) = Some k then remove1 e (outgoing (node_heap g k))
            else outgoing (node_heap g k))"
      using a by (auto simp: outgoing_remove_def ebind_Inr list_remove_def upd_node_def
          split: option.splits if_splits)
    show ?thesis
      using False unfolding b
      by (cases t) (simp_all add: upd_edge_def outgoing_append_def upd_node_def ga)
  qed
  then show "obj_heap g' = obj_heap g" and "vec_heap g' = vec_heap g" and "nodes g' = nodes g"
    and "edge_heap g' = (edge_heap g)(e := (edge_heap g e)\<lparr>source := t\<rparr>)"
    and "incoming (node_heap g' k) = incoming (node_heap g k)"
    and "outgoing (node_heap g' k) =
           (if t = source (edge_heap g e) then outgoing (node_heap g k)
            else (if source (edge_heap g e) = Some k then remove1 e (outgoing (node_heap g k))
                  else outgoing (node_heap g k)) @ (if t = Some k then [e] else []))"
    by simp_all
qed

lemma remove_edge_effect:
  assumes "remove_edge e g = Inr g'"
  shows "obj_heap g' = obj_heap g" and "vec_heap g' = vec_heap g" and "nodes g' = nodes g"
    and "edge_heap g' = (edge_heap g)(e := (edge_heap g e)\<lparr>source := None, target := None\<rparr>)"
    and "outgoing (node_heap g' k) =
           (if source (edge_heap g e) = Some k then remove1 e (outgoing (node_heap g k))
            else outgoing (node_heap g k))"
    and "incoming (node_heap g' k) =
           (if target (edge_heap g e) = Some k then remove1 e (incoming (node_heap g k))
            else incoming (node_heap g k))"
proof -
  from assms obtain ga gb l where
    a: "set_source e None g = Inr ga" and b: "set_target e None ga = Inr gb"
    and c: "g' = gb\<lparr>edges := l\<rparr>"
    by (auto simp: remove_edge_def ebind_Inr)
  note fa = set_source_effect[OF a] and fb = set_target_effect[OF b]
  show "obj_heap g' = obj_heap g" "vec_heap g' = vec_heap g" "nodes g' = nodes g"
    by (simp_all add: c fa fb)
  show "edge_heap g' = (edge_heap g)(e := (edge_heap g e)\<lparr>source := None, target := None\<rparr>)"
    by (simp add: c fa fb)
  show "outgoing (node_heap g' k) =
           (if source (edge_heap g e) = Some k then remove1 e (outgoing (node_heap g k))
            else outgoing (node_heap g k))"
    by (cases "source (edge_heap g e)") (simp_all add: c fa fb)
  show "incoming (node_heap g' k) =
           (if target (edge_heap g e) = Some k then remove1 e (incoming (node_heap g k))
            else incoming (node_heap g k))"
    by (cases "target (edge_heap g e)") (simp_all add: c fa fb)
qed

lemma edge_length_upd_vec [simp]: "edge_length (upd_vec v f g) e = edge_length g e"
  by (simp add: edge_length_def upd_vec_def split: option.splits)

lemma reparent_objects_effect:
  assumes "reparent_objects e1 e2 os g = Inr g'" and "e1 \<noteq> e2"
  shows "node_heap g' = node_heap g \<and> nodes g' = nodes g
    \<and> (\<forall>x. segments (edge_heap g' x) = segments (edge_heap g x))
    \<and> (\<forall>x. source (edge_heap g' x) = source (edge_heap g x))
    \<and> (\<forall>x. target (edge_heap g' x) = target (edge_heap g x))
    \<and> (\<forall>x. edge_scenery_objects (edge_heap g' x) =
          (if x = e1 then edge_scenery_objects (edge_heap g e1) @ os
           else edge_scenery_objects (edge_heap g x)))
    \<and> (\<forall>obj. relative_to (obj_heap g' obj) =
          (if obj \<in> set os \<and> relative_to (obj_heap g obj) = Some e2 then Some e1
           else relative_to (obj_heap g obj)))
    \<and> (\<forall>obj. obj_pos (obj_heap g' obj) = obj_pos (obj_heap g obj))
    \<and> (\<forall>obj. segments (edge_heap g e1) \<noteq> [] \<and> own_vector g obj \<longrightarrow>
          obj_pose g' obj =
            (if obj \<in> set os \<and> relative_to (obj_heap g obj) = Some e2
             then RawPose (Vector (vx (pos (obj_pose g obj))
                                     + sum_list (map seg_length (segments (edge_heap g e1))))
                                  (vy (pos (obj_pose g obj))))
                          (direction (obj_pose g obj))
             else obj_pose g obj))"
  using assms
proof (induction os arbitrary: g)
  case Nil
  then show ?case by simp
next
  case (Cons a os)
  define len where "len = sum_list (map seg_length (segments (edge_heap g e1)))"
  from Cons.prems(1) obtain g1 where
    g1: "(if relative_to (obj_heap g a) = Some e2 then
              let g = upd_obj a (\<lambda>ob. ob\<lparr>relative_to := Some e1\<rparr>) g
              in ebind (edge_length g e1)
                   (\<lambda>len. Inr (upd_vec (obj_pos (obj_heap g a)) (\<lambda>p. Vector (vx p + len) (vy p)) g))
            else Inr g) = Inr g1"
    and r: "reparent_objects e1 e2 os
               (upd_edge e1 (\<lambda>ed. ed\<lparr>edge_scenery_objects := edge_scenery_objects ed @ [a]\<rparr>) g1) = Inr g'"
    by (auto simp: ebind_Inr)
  define g2 where "g2 = upd_edge e1 (\<lambda>ed. ed\<lparr>edge_scenery_objects := edge_scenery_objects ed @ [a]\<rparr>) g1"
  have h1: "node_heap g1 = node_heap g" "nodes g1 = nodes g" "edge_heap g1 = edge_heap g"
    "\<And>obj. relative_to (obj_heap g1 obj) =
          (if obj = a \<and> relative_to (obj_heap g obj) = Some e2 then Some e1
           else relative_to (obj_heap g obj))"
    "\<And>obj. obj_pos (obj_heap g1 obj) = obj_pos (obj_heap g obj)"
    "\<And>obj. obj_direction (obj_heap g1 obj) = obj_direction (obj_heap g obj)"
    using g1 by (auto simp: ebind_Inr upd_obj_def upd_vec_def Let_def split: if_splits)
  have v1: "vec_heap g1 =
      (if relative_to (obj_heap g a) = Some e2
       then (vec_heap g)(obj_pos (obj_heap g a) :=
              Vector (vx (vec_heap g (obj_pos (obj_heap g a))) + len) (vy (vec_heap g (obj_pos (obj_heap g a)))))
       else vec_heap g)" if "segments (edge_heap g e1) \<noteq> []"
    using g1 that by (auto simp: ebind_Inr upd_obj_def upd_vec_def Let_def edge_length_def len_def
        split: if_splits)
  have p1: "obj_pose g1 obj =
            (if obj = a \<and> relative_to (obj_heap g obj) = Some e2
             then RawPose (Vector (vx (pos (obj_pose g obj)) + len) (vy (pos (obj_pose g obj))))
                          (direction (obj_pose g obj))
             else obj_pose g obj)"
    if ne: "segments (edge_heap g e1) \<noteq> []" and own: "own_vector g obj" for obj
  proof (cases "relative_to (obj_heap g a) = Some e2")
    case True
    show ?thesis
    proof (cases "obj = a")
      case True
      then show ?thesis using \<open>relative_to (obj_heap g a) = Some e2\<close>
        by (simp add: obj_pose_def h1 v1[OF ne])
    next
      case False
      then have "obj_pos (obj_heap g a) \<noteq> obj_pos (obj_heap g obj)"
        using own True by (auto simp: own_vector_def)
      then show ?thesis using False by (simp add: obj_pose_def h1 v1[OF ne])
    qed
  next
    case False
    then show ?thesis by (auto simp: obj_pose_def h1 v1[OF ne])
  qed
  have h2: "node_heap g2 = node_heap g" "nodes g2 = nodes g" "obj_heap g2 = obj_heap g1"
    "vec_heap g2 = vec_heap g1"
    "\<And>x. segments (edge_heap g2 x) = segments (edge_heap g x)"
    "\<And>x. source (edge_heap g2 x) = source (edge_heap g x)"
    "\<And>x. target (edge_heap g2 x) = target (edge_heap g x)"
    "\<And>x. edge_scenery_objects (edge_heap g2 x) =
          (if x = e1 then edge_scenery_objects (edge_heap g e1) @ [a]
           else edge_scenery_objects (edge_heap g x))"
    by (simp_all add: g2_def upd_edge_def h1)
  have q2: "obj_pose g2 obj = obj_pose g1 obj" for obj
    by (simp add: obj_pose_def h2)
  have own2: "own_vector g2 obj" if "own_vector g obj" for obj
    using that by (auto simp: own_vector_def h2 h1 split: if_splits)
  note ih = Cons.IH[OF r[folded g2_def] Cons.prems(2)]
  show ?case
  proof (intro conjI allI impI)
    show "node_heap g' = node_heap g" "nodes g' = nodes g" using ih by (simp_all add: h2)
  next
    fix x
    show "segments (edge_heap g' x) = segments (edge_heap g x)" using ih by (simp add: h2)
    show "source (edge_heap g' x) = source (edge_heap g x)" using ih by (simp add: h2)
    show "target (edge_heap g' x) = target (edge_heap g x)" using ih by (simp add: h2)
    show "edge_scenery_objects (edge_heap g' x) =
          (if x = e1 then edge_scenery_objects (edge_heap g e1) @ a # os
           else edge_scenery_objects (edge_heap g x))" using ih by (simp add: h2)
  next
    fix obj
    show "relative_to (obj_heap g' obj) =
          (if obj \<in> set (a # os) \<and> relative_to (obj_heap g obj) = Some e2 then Some e1
           else relative_to (obj_heap g obj))"
      using ih Cons.prems(2) by (auto simp: h2 h1)
    show "obj_pos (obj_heap g' obj) = obj_pos (obj_heap g obj)" using ih by (simp add: h2 h1)
  next
    fix obj
    assume a: "segments (edge_heap g e1) \<noteq> [] \<and> own_vector g obj"
    then have ne: "segments (edge_heap g e1) \<noteq> []" and own: "own_vector g obj" by simp_all
    have "obj_pose g' obj =
            (if obj \<in> set os \<and> relative_to (obj_heap g2 obj) = Some e2
             then RawPose (Vector (vx (pos (obj_pose g2 obj))
                                     + sum_list (map seg_length (segments (edge_heap g2 e1))))
                                  (vy (pos (obj_pose g2 obj))))
                          (direction (obj_pose g2 obj))
             else obj_pose g2 obj)"
      using ih ne own2[OF own] by (simp add: h2)
    then show "obj_pose g' obj =
            (if obj \<in> set (a # os) \<and> relative_to (obj_heap g obj) = Some e2
             then RawPose (Vector (vx (pos (obj_pose g obj))
                                     + sum_list (map seg_length (segments (edge_heap g e1))))
                                  (vy (pos (obj_pose g obj))))
                          (direction (obj_pose g obj))
             else obj_pose g obj)"
      unfolding q2 h2 h1 p1[OF ne own] len_def[symmetric] using Cons.prems(2)
      by (cases "obj = a") auto
  qed
qed

lemma reverse_travel_inject:
  "reverse (seg_travel s u) = reverse (seg_travel s' u') \<Longrightarrow> seg_travel s u = seg_travel s' u'"
proof -
  assume "reverse (seg_travel s u) = reverse (seg_travel s' u')"
  then have "reverse (reverse (seg_travel s u)) = reverse (reverse (seg_travel s' u'))"
    by (simp only:)
  then show ?thesis by (simp only: reverse_reverse_travel)
qed

lemma merge_keeps:
  assumes wf: "well_formed gb" and ne: "e1 \<noteq> e2"
    and i1: "incoming (node_heap gb n) = [e1]" and i2: "outgoing (node_heap gb n) = [e2]"
    and st: "set_target e1 (target (edge_heap gb e2)) gb = Inr gc"
    and rp: "reparent_objects e1 e2 (edge_scenery_objects (edge_heap gc e2)) gc = Inr gd"
    and gf: "gf = upd_edge e1 (\<lambda>ed. ed\<lparr>segments := segments ed @ segments (edge_heap gd e2)\<rparr>)
                    (upd_edge e2 (\<lambda>ed. ed\<lparr>edge_scenery_objects := []\<rparr>) gd)"
    and rm: "remove_edge e2 gf = Inr ge"
    and g': "g' = ge\<lparr>nodes := l\<rparr>"
  shows "well_formed g'"
    and "on_edge gb obj \<Longrightarrow> own_vector gb obj
           \<Longrightarrow> on_edge g' obj \<and> own_vector g' obj \<and> global_pose g' obj = global_pose gb obj"
proof -
  from wf have ok: "objs_ok gb" "lengths_ok gb" "segs_ok gb" "lists_ok gb" "smooth gb"
    by (simp_all add: well_formed_def)
  define S where "S x = segments (edge_heap gb x)" for x
  define Ob where "Ob x = edge_scenery_objects (edge_heap gb x)" for x
  define R where "R x = relative_to (obj_heap gb x)" for x
  define I where "I k = incoming (node_heap gb k)" for k
  define Ou where "Ou k = outgoing (node_heap gb k)" for k
  define tgt where "tgt = target (edge_heap gb e2)"
  define len where "len = sum_list (map seg_length (S e1))"
  have dist: "\<And>x. distinct (Ob x)" and mem: "\<And>x obj. obj \<in> set (Ob x) \<longleftrightarrow> R obj = Some x"
    using ok(1) by (simp_all add: objs_ok_def Ob_def R_def)
  have nn: "\<And>x. \<forall>t\<in>set (S x). 0 \<le> seg_length t"
    using ok(2) by (simp add: lengths_ok_def S_def)
  have dI: "distinct (I k)" and dO: "distinct (Ou k)"
    and mI: "x \<in> set (I k) \<longleftrightarrow> target (edge_heap gb x) = Some k"
    and mO: "x \<in> set (Ou k) \<longleftrightarrow> source (edge_heap gb x) = Some k" for x k
    using ok(4) by (simp_all add: lists_ok_def I_def Ou_def)
  have In: "I n = [e1]" and On: "Ou n = [e2]" by (simp_all add: I_def Ou_def i1 i2)
  have "e1 \<in> set (incoming (node_heap gb n))" "e2 \<in> set (outgoing (node_heap gb n))"
    by (simp_all add: i1 i2)
  then have a1: "attached gb e1" and a2: "attached gb e2"
    unfolding attached_def by blast+
  have ne1: "S e1 \<noteq> []" and ne2: "S e2 \<noteq> []"
    using ok(3) a1 a2 by (simp_all add: segs_ok_def S_def)
  have t1: "target (edge_heap gb e1) = Some n" using mI[of e1 n] by (simp add: In)
  have s2: "source (edge_heap gb e2) = Some n" using mO[of e2 n] by (simp add: On)
  have tn: "tgt \<noteq> Some n" using mI[of e2 n] ne by (auto simp: In tgt_def)
  have jn: "\<And>x. joined (S x)" using ok(5) by (simp add: smooth_def S_def)
  have meet: "edge_last gb e1 = edge_first gb e2"
  proof -
    have "opposite (into gb n)" using ok(5) by (simp add: smooth_def)
    then have "reverse (edge_first gb e2) = reverse (edge_last gb e1)"
      by (simp add: opposite_def into_def i1 i2)
    then show ?thesis
      unfolding edge_first_def edge_last_def by (rule reverse_travel_inject[symmetric])
  qed
  note c = set_target_effect[OF st]
  have c1: "segments (edge_heap gc e1) \<noteq> []" using ne1 by (simp add: c(4) S_def)
  have cI: "incoming (node_heap gc k) =
      (if k = n then [] else I k) @ (if tgt = Some k then [e1] else [])" for k
    using tn by (auto simp: c(6) t1 tgt_def[symmetric] I_def[symmetric] In)
  have qc: "obj_pose gc x = obj_pose gb x" for x by (simp add: obj_pose_def c)
  have ownc: "own_vector gc x \<longleftrightarrow> own_vector gb x" for x by (simp add: own_vector_def c)
  from reparent_objects_effect[OF rp ne] have
    d: "node_heap gd = node_heap gc"
      "\<And>x. segments (edge_heap gd x) = S x"
      "\<And>x. source (edge_heap gd x) = source (edge_heap gb x)"
      "\<And>x. target (edge_heap gd x) = (if x = e1 then tgt else target (edge_heap gb x))"
      "\<And>x. edge_scenery_objects (edge_heap gd x) = (if x = e1 then Ob e1 @ Ob e2 else Ob x)"
      "\<And>obj. relative_to (obj_heap gd obj) = (if R obj = Some e2 then Some e1 else R obj)"
      "\<And>obj. obj_pos (obj_heap gd obj) = obj_pos (obj_heap gb obj)"
    using ne by (simp_all add: c S_def Ob_def R_def mem[unfolded Ob_def R_def] tgt_def)
  from reparent_objects_effect[OF rp ne] c1 have
    dq: "own_vector gb obj \<Longrightarrow> obj_pose gd obj =
          (if R obj = Some e2
           then RawPose (Vector (vx (pos (obj_pose gb obj)) + len) (vy (pos (obj_pose gb obj))))
                  (direction (obj_pose gb obj))
           else obj_pose gb obj)" for obj
    using ne by (simp add: c qc ownc S_def Ob_def R_def len_def mem[unfolded Ob_def R_def])
  have f: "node_heap gf = node_heap gc" "obj_heap gf = obj_heap gd" "vec_heap gf = vec_heap gd"
      "\<And>x. segments (edge_heap gf x) = (if x = e1 then S e1 @ S e2 else S x)"
      "\<And>x. source (edge_heap gf x) = source (edge_heap gb x)"
      "\<And>x. target (edge_heap gf x) = (if x = e1 then tgt else target (edge_heap gb x))"
      "\<And>x. edge_scenery_objects (edge_heap gf x) =
           (if x = e2 then [] else if x = e1 then Ob e1 @ Ob e2 else Ob x)"
    using ne by (simp_all add: gf upd_edge_def d)
  note e = remove_edge_effect[OF rm]
  have sg: "segments (edge_heap g' x) = (if x = e1 then S e1 @ S e2 else S x)" for x
    by (simp add: g' e f)
  have so: "source (edge_heap g' x) = (if x = e2 then None else source (edge_heap gb x))" for x
    by (simp add: g' e f)
  have ta: "target (edge_heap g' x) = (if x = e2 then None else if x = e1 then tgt else target (edge_heap gb x))" for x
    by (simp add: g' e f)
  have ob: "edge_scenery_objects (edge_heap g' x) =
           (if x = e2 then [] else if x = e1 then Ob e1 @ Ob e2 else Ob x)" for x
    by (simp add: g' e f)
  have rl: "relative_to (obj_heap g' x) = (if R x = Some e2 then Some e1 else R x)" for x
    by (simp add: g' e f d)
  have op: "obj_pos (obj_heap g' x) = obj_pos (obj_heap gb x)" for x
    by (simp add: g' e f d)
  have qq: "obj_pose g' x = obj_pose gd x" for x
    by (simp add: obj_pose_def g' e f)
  have out: "outgoing (node_heap g' k) = (if k = n then [] else Ou k)" for k
    using ne by (auto simp: g' e(5) f c(5) s2 Ou_def[symmetric] On)
  have inc: "incoming (node_heap g' k) =
      (if k = n then [] else if tgt = Some k then remove1 e2 (I k) @ [e1] else I k)" for k
  proof -
    have "e2 \<in> set (I k)" if "tgt = Some k" using that mI[of e2 k] by (simp add: tgt_def)
    then show ?thesis
      using ne tn by (auto simp: g' e(6) f cI ne tgt_def[symmetric] remove1_append)
  qed
  have "objs_ok g'"
    unfolding objs_ok_def ob rl using ne dist mem by auto
  moreover have "lengths_ok g'"
    unfolding lengths_ok_def sg using nn by auto
  moreover have "segs_ok g'"
  proof -
    have "attached gb x" if "attached g' x" for x
    proof -
      from that obtain k where
        k: "x \<in> set (incoming (node_heap g' k)) \<or> x \<in> set (outgoing (node_heap g' k))"
        by (auto simp: attached_def)
      then have "x = e1 \<or> x \<in> set (I k) \<or> x \<in> set (Ou k)"
        by (auto simp: inc out split: if_splits dest: in_remove1D)
      then show ?thesis using a1 by (auto simp: attached_def I_def Ou_def)
    qed
    then show ?thesis
      unfolding segs_ok_def sg using ok(3) ne1 by (auto simp: segs_ok_def S_def)
  qed
  moreover have "lists_ok g'"
  proof -
    have d1: "distinct (incoming (node_heap g' k))" for k
      using dI[of k] mI[of e1 k] t1 by (auto simp: inc dest: in_remove1D)
    have d2: "distinct (outgoing (node_heap g' k))" for k
      using dO[of k] by (simp add: out)
    have m1: "x \<in> set (incoming (node_heap g' k)) \<longleftrightarrow> target (edge_heap g' x) = Some k" for x k
    proof -
      consider "x = e1" | "x = e2" | "x \<noteq> e1" "x \<noteq> e2" by blast
      then show ?thesis
      proof cases
        case 1
        then show ?thesis using ne tn mI[of e1 k] t1 by (auto simp: inc ta dest: in_remove1D)
      next
        case 2
        then show ?thesis using ne dI[of k] mI[of e2 k] mI[of e2 n] In
          by (auto simp: inc ta tgt_def)
      next
        case 3
        then show ?thesis using mI[of x k] mI[of x n] In
          by (auto simp: inc ta dest: in_remove1D)
      qed
    qed
    have m2: "x \<in> set (outgoing (node_heap g' k)) \<longleftrightarrow> source (edge_heap g' x) = Some k" for x k
    proof (cases "x = e2")
      case True
      then show ?thesis using mO[of e2 k] s2 by (auto simp: out so)
    next
      case False
      then show ?thesis using mO[of x k] mO[of x n] On by (auto simp: out so)
    qed
    show ?thesis unfolding lists_ok_def using d1 d2 m1 m2 by blast
  qed
  moreover have "smooth g'"
  proof -
    have "joined (S e1 @ S e2)"
      using ne1 ne2 jn[of e1] jn[of e2] meet
      by (simp add: joined_append edge_last_def edge_first_def S_def)
    then have j: "joined (segments (edge_heap g' x))" for x
      using jn by (simp add: sg)
    have el: "edge_last g' x = (if x = e1 then edge_last gb e2 else edge_last gb x)" for x
      using ne2 by (simp add: edge_last_def sg S_def[symmetric])
    have ef: "edge_first g' x = edge_first gb x" for x
      using ne1 by (simp add: edge_first_def sg S_def[symmetric])
    have "opposite (into g' k)" for k
    proof (cases "k = n")
      case True
      then show ?thesis by (simp add: opposite_def into_def inc out)
    next
      case False
      have n1: "e1 \<notin> set (I k)" using mI[of e1 k] t1 False by simp
      have i: "mset (map (edge_last g') (incoming (node_heap g' k))) = mset (map (edge_last gb) (I k))"
      proof (cases "tgt = Some k")
        case True
        then have m: "e2 \<in> set (I k)" using mI[of e2 k] by (simp add: tgt_def)
        have "e1 \<notin> set (remove1 e2 (I k))" using n1 by (auto dest: in_remove1D)
        then have "map (edge_last g') (remove1 e2 (I k)) = map (edge_last gb) (remove1 e2 (I k))"
          by (rule map_agree) (simp add: el)
        then have "mset (map (edge_last g') (remove1 e2 (I k))) = mset (map (edge_last gb) (remove1 e2 (I k)))"
          by (simp only:)
        then show ?thesis
          using True False mset_map_remove1[OF m, of "edge_last gb"] by (simp add: inc el)
      next
        case nt: False
        have "map (edge_last g') (I k) = map (edge_last gb) (I k)"
          using n1 by (rule map_agree) (simp add: el)
        then have "mset (map (edge_last g') (I k)) = mset (map (edge_last gb) (I k))"
          by (simp only:)
        then show ?thesis using nt False by (simp add: inc)
      qed
      have "mset (into g' k) = mset (into gb k)"
        using i False by (simp add: into_def out ef I_def Ou_def)
      moreover have "\<forall>p\<in>set (into gb k). reverse (reverse p) = p"
        using into_normal by blast
      moreover have "opposite (into gb k)" using ok(5) by (simp add: smooth_def)
      ultimately show ?thesis by (rule opposite_perm)
    qed
    with j show ?thesis by (simp add: smooth_def)
  qed
  ultimately show "well_formed g'" by (simp add: well_formed_def)
  show "on_edge g' obj \<and> own_vector g' obj \<and> global_pose g' obj = global_pose gb obj"
    if on: "on_edge gb obj" and own: "own_vector gb obj"
  proof -
    define q where "q = obj_pose gb obj"
    have ps: "obj_pose g' obj =
          (if R obj = Some e2
           then RawPose (Vector (vx (pos q) + len) (vy (pos q))) (direction q) else q)"
      using dq[OF own] by (simp add: qq q_def)
    have own': "own_vector g' obj"
      using own unfolding own_vector_def rl op R_def[symmetric] by (auto split: if_splits)
    have l1: "0 \<le> len" unfolding len_def using nn[of e1] by (intro sum_list_nonneg) auto
    have l2: "0 \<le> sum_list (map seg_length (S e2))" using nn[of e2] by (intro sum_list_nonneg) auto
    show ?thesis
    proof (cases "R obj")
      case None
      then show ?thesis using own'
        by (simp add: on_edge_def global_pose_free rl ps R_def[symmetric] q_def)
    next
      case (Some x)
      have r: "relative_to (obj_heap gb obj) = Some x" using Some by (simp add: R_def)
      have x: "S x \<noteq> []" "0 \<le> vx (pos q)" "vx (pos q) \<le> sum_list (map seg_length (S x))"
        using on r by (simp_all add: on_edge_def S_def q_def)
      have gp: "global_pose gb obj = Inr (Some (place (first_pose (S x) (vx (pos q))) q))"
        using global_pose_on_edge[OF r on] by (simp add: S_def q_def)
      consider "x = e1" | "x = e2" | "x \<noteq> e1" "x \<noteq> e2" by blast
      then show ?thesis
      proof cases
        case 1
        have r': "relative_to (obj_heap g' obj) = Some e1" using Some 1 ne by (simp add: rl)
        have p': "obj_pose g' obj = q" using Some 1 ne by (simp add: ps)
        have on': "on_edge g' obj"
          using x l2 ne1 by (simp add: on_edge_def r' sg p' 1)
        have "global_pose g' obj = Inr (Some (place (first_pose (S e1 @ S e2) (vx (pos q))) q))"
          using global_pose_on_edge[OF r' on'] by (simp add: sg p')
        also have "first_pose (S e1 @ S e2) (vx (pos q)) = first_pose (S e1) (vx (pos q))"
          using ne1 ne2 nn[of e1] x(3) by (intro track_extended) (simp_all add: 1)
        finally show ?thesis using gp on' own' by (simp add: 1)
      next
        case 2
        define q' where "q' = RawPose (Vector (vx (pos q) + len) (vy (pos q))) (direction q)"
        have r': "relative_to (obj_heap g' obj) = Some e1" using Some 2 by (simp add: rl)
        have p': "obj_pose g' obj = q'" using Some 2 by (simp add: ps q'_def)
        have on': "on_edge g' obj"
          using x l1 ne1 by (simp add: on_edge_def r' sg p' q'_def 2 len_def)
        have "global_pose g' obj = Inr (Some (place (first_pose (S e1 @ S e2) (vx (pos q) + len)) q'))"
          using global_pose_on_edge[OF r' on'] by (simp add: sg p') (simp add: q'_def)
        also have "first_pose (S e1 @ S e2) (vx (pos q) + len) = first_pose (S e2) (vx (pos q))"
          unfolding len_def using ne1 ne2 nn[of e1] nn[of e2] _ jn[of e2] x(2)
        proof (rule track_appended)
          show "joined (S e1 @ S e2)"
            using ne1 ne2 jn[of e1] jn[of e2] meet
            by (simp add: joined_append edge_last_def edge_first_def S_def)
        qed
        also have "place (first_pose (S e2) (vx (pos q))) q' = place (first_pose (S e2) (vx (pos q))) q"
          unfolding q'_def by (rule place_shift)
        finally show ?thesis using gp on' own' by (simp add: 2)
      next
        case 3
        have r': "relative_to (obj_heap g' obj) = Some x" using Some 3 by (simp add: rl)
        have p': "obj_pose g' obj = q" using Some 3 by (simp add: ps)
        have on': "on_edge g' obj"
          using x 3 by (simp add: on_edge_def r' sg p')
        have "global_pose g' obj = Inr (Some (place (first_pose (S x) (vx (pos q))) q))"
          using global_pose_on_edge[OF r' on'] 3 by (simp add: sg p')
        then show ?thesis using gp on' own' by simp
      qed
    qed
  qed
qed

subsection \<open>One node of the contraction\<close>

lemma contract_node_generic:
  assumes "(if d = 2 then
            (let es = es0
             in if es ! 0 = es ! 1 then Inr (g, removed)
                else
                  ebind A
                    (\<lambda>g. ebind (B g)
                    (\<lambda>g. if length (incoming (node_heap g n)) \<noteq> 1 then Inl AssertionError
                          else if length (outgoing (node_heap g n)) \<noteq> 1 then Inl AssertionError
                          else
                            let e1 = incoming (node_heap g n) ! 0;
                                e2 = outgoing (node_heap g n) ! 0
                            in ebind (set_target e1 (target (edge_heap g e2)) g)
                                 (\<lambda>g. ebind (reparent_objects e1 e2 (edge_scenery_objects (edge_heap g e2)) g)
                                 (\<lambda>g. let g = upd_edge e2 (\<lambda>ed. ed\<lparr>edge_scenery_objects := []\<rparr>) g;
                                           g = upd_edge e1
                                                 (\<lambda>ed. ed\<lparr>segments := segments ed @ segments (edge_heap g e2)\<rparr>) g
                                       in ebind (remove_edge e2 g)
                                            (\<lambda>g. let removed = removed(NodeKey n \<mapsto> e1, EdgeKey e2 \<mapsto> e1)
                                                  in ebind (list_remove n (nodes g))
                                                       (\<lambda>l. Inr (g\<lparr>nodes := l\<rparr>, removed))))))))
          else Inr (g, removed)) = Inr (g', r')"
    and "g' \<noteq> g"
  shows "d = 2 \<and> es0 ! 0 \<noteq> es0 ! 1 \<and>
    (\<exists>ga gb gc gd ge l e1 e2.
      A = Inr ga \<and> B ga = Inr gb \<and>
      incoming (node_heap gb n) = [e1] \<and> outgoing (node_heap gb n) = [e2] \<and>
      set_target e1 (target (edge_heap gb e2)) gb = Inr gc \<and>
      reparent_objects e1 e2 (edge_scenery_objects (edge_heap gc e2)) gc = Inr gd \<and>
      remove_edge e2
         (upd_edge e1 (\<lambda>ed. ed\<lparr>segments := segments ed @ segments (edge_heap gd e2)\<rparr>)
            (upd_edge e2 (\<lambda>ed. ed\<lparr>edge_scenery_objects := []\<rparr>) gd)) = Inr ge \<and>
      g' = ge\<lparr>nodes := l\<rparr>)"
proof -
  have d: "d = 2" and es: "es0 ! 0 \<noteq> es0 ! 1"
    using assms by (auto simp: Let_def split: if_splits)
  from assms(1) d es obtain ga gb where
    a: "A = Inr ga" and b: "B ga = Inr gb"
    and l1: "length (incoming (node_heap gb n)) = 1" and l2: "length (outgoing (node_heap gb n)) = 1"
    and rest: "(let e1 = incoming (node_heap gb n) ! 0;
                                e2 = outgoing (node_heap gb n) ! 0
                            in ebind (set_target e1 (target (edge_heap gb e2)) gb)
                                 (\<lambda>g. ebind (reparent_objects e1 e2 (edge_scenery_objects (edge_heap g e2)) g)
                                 (\<lambda>g. let g = upd_edge e2 (\<lambda>ed. ed\<lparr>edge_scenery_objects := []\<rparr>) g;
                                           g = upd_edge e1
                                                 (\<lambda>ed. ed\<lparr>segments := segments ed @ segments (edge_heap g e2)\<rparr>) g
                                       in ebind (remove_edge e2 g)
                                            (\<lambda>g. let removed = removed(NodeKey n \<mapsto> e1, EdgeKey e2 \<mapsto> e1)
                                                  in ebind (list_remove n (nodes g))
                                                       (\<lambda>l. Inr (g\<lparr>nodes := l\<rparr>, removed)))))) = Inr (g', r')"
    by (auto simp: ebind_Inr split: if_splits)
  define e1 where "e1 = incoming (node_heap gb n) ! 0"
  define e2 where "e2 = outgoing (node_heap gb n) ! 0"
  have i1: "incoming (node_heap gb n) = [e1]"
    using l1 by (cases "incoming (node_heap gb n)") (simp_all add: e1_def)
  have i2: "outgoing (node_heap gb n) = [e2]"
    using l2 by (cases "outgoing (node_heap gb n)") (simp_all add: e2_def)
  have s: "segments (edge_heap (upd_edge e2 (\<lambda>ed. ed\<lparr>edge_scenery_objects := []\<rparr>) x) e2)
      = segments (edge_heap x e2)" for x
    by (simp add: upd_edge_def)
  from rest obtain gc gd ge l where
    "set_target e1 (target (edge_heap gb e2)) gb = Inr gc"
    "reparent_objects e1 e2 (edge_scenery_objects (edge_heap gc e2)) gc = Inr gd"
    "remove_edge e2 (upd_edge e1 (\<lambda>ed. ed\<lparr>segments := segments ed @ segments (edge_heap gd e2)\<rparr>)
                    (upd_edge e2 (\<lambda>ed. ed\<lparr>edge_scenery_objects := []\<rparr>) gd)) = Inr ge"
    "g' = ge\<lparr>nodes := l\<rparr>"
    by (auto simp: Let_def ebind_Inr e1_def[symmetric] e2_def[symmetric] s)
  with d es a b i1 i2 show ?thesis by blast
qed

lemma contract_node_stages:
  assumes c: "contract_node n (g, r) = Inr (g', r')" and ch: "g' \<noteq> g"
  obtains ga gb gc gd ge l e1 e2 where
    "degree g n = 2"
    "(incoming (node_heap g n) @ outgoing (node_heap g n)) ! 0
       \<noteq> (incoming (node_heap g n) @ outgoing (node_heap g n)) ! 1"
    "(if length (incoming (node_heap g n)) = 2 then flip (incoming (node_heap g n) ! 1) g else Inr g) = Inr ga"
    "(if length (outgoing (node_heap ga n)) = 2 then flip (outgoing (node_heap ga n) ! 1) ga else Inr ga) = Inr gb"
    "incoming (node_heap gb n) = [e1]" "outgoing (node_heap gb n) = [e2]"
    "set_target e1 (target (edge_heap gb e2)) gb = Inr gc"
    "reparent_objects e1 e2 (edge_scenery_objects (edge_heap gc e2)) gc = Inr gd"
    "remove_edge e2 (upd_edge e1 (\<lambda>ed. ed\<lparr>segments := segments ed @ segments (edge_heap gd e2)\<rparr>)
                    (upd_edge e2 (\<lambda>ed. ed\<lparr>edge_scenery_objects := []\<rparr>) gd)) = Inr ge"
    "g' = ge\<lparr>nodes := l\<rparr>"
  using contract_node_generic[OF c[unfolded contract_node_def prod.case] ch] that by blast

lemma contract_node_keeps:
  assumes c: "contract_node n (g, r) = Inr (g', r')" and wf: "well_formed g"
  shows "well_formed g' \<and>
    (\<forall>obj. on_edge g obj \<and> own_vector g obj
        \<longrightarrow> on_edge g' obj \<and> own_vector g' obj \<and> global_pose g' obj = global_pose g obj)"
proof (cases "g' = g")
  case True
  then show ?thesis using wf by simp
next
  case False
  show ?thesis
  proof (rule contract_node_stages[OF c False])
  fix ga gb gc gd ge l e1 e2
  assume
    deg: "degree g n = 2"
    and es: "(incoming (node_heap g n) @ outgoing (node_heap g n)) ! 0
       \<noteq> (incoming (node_heap g n) @ outgoing (node_heap g n)) ! 1"
    and a: "(if length (incoming (node_heap g n)) = 2 then flip (incoming (node_heap g n) ! 1) g else Inr g) = Inr ga"
    and b: "(if length (outgoing (node_heap ga n)) = 2 then flip (outgoing (node_heap ga n) ! 1) ga else Inr ga) = Inr gb"
    and i1: "incoming (node_heap gb n) = [e1]" and i2: "outgoing (node_heap gb n) = [e2]"
    and st: "set_target e1 (target (edge_heap gb e2)) gb = Inr gc"
    and rp: "reparent_objects e1 e2 (edge_scenery_objects (edge_heap gc e2)) gc = Inr gd"
    and rm: "remove_edge e2 (upd_edge e1 (\<lambda>ed. ed\<lparr>segments := segments ed @ segments (edge_heap gd e2)\<rparr>)
                    (upd_edge e2 (\<lambda>ed. ed\<lparr>edge_scenery_objects := []\<rparr>) gd)) = Inr ge"
    and g': "g' = ge\<lparr>nodes := l\<rparr>"
  define ins where "ins = incoming (node_heap g n)"
  define outs where "outs = outgoing (node_heap g n)"
  have first: "well_formed gb \<and> e1 \<noteq> e2
     \<and> (\<forall>obj. on_edge g obj \<and> own_vector g obj
           \<longrightarrow> on_edge gb obj \<and> own_vector gb obj \<and> global_pose gb obj = global_pose g obj)"
  proof -
    from deg have "length ins + length outs = 2" by (simp add: degree_def ins_def outs_def)
    then have "(length ins = 2 \<and> length outs = 0) \<or> (length ins = 1 \<and> length outs = 1)
        \<or> (length ins = 0 \<and> length outs = 2)"
      by arith
    then consider "length ins = 2" "outs = []" | "length ins = 1" "length outs = 1"
      | "ins = []" "length outs = 2"
      by auto
    then show ?thesis
    proof cases
      case 1
      then obtain x y where xy: "ins = [x, y]"
        by (cases ins) (auto simp: length_Suc_conv)
      have ne: "x \<noteq> y" using es by (simp add: ins_def[symmetric] outs_def[symmetric] xy 1)
      have f: "flip y g = Inr ga" using a by (simp add: ins_def[symmetric] xy)
      have "y \<in> set ins" by (simp add: xy)
      then have att: "attached g y" unfolding attached_def ins_def by blast
      note k = flip_keeps[OF f wf att] and fl = flip_lists(1-4)[OF f, of n]
      have ns: "source (edge_heap g y) \<noteq> Some n"
        using fl(3) by (auto simp: outs_def[symmetric] 1)
      have oa: "outgoing (node_heap ga n) = (if target (edge_heap g y) = Some n then [y] else [])"
        using fl(1) ns by (simp add: outs_def[symmetric] 1)
      then have "length (outgoing (node_heap ga n)) \<noteq> 2" by simp
      with b have gb: "gb = ga" by simp
      have t: "target (edge_heap g y) = Some n" and e2: "e2 = y"
        using i2 oa by (auto simp: gb split: if_splits)
      have "incoming (node_heap ga n) = [x]"
        using fl(2) ns t ne by (simp add: ins_def[symmetric] xy)
      then have "e1 = x" using i1 by (simp add: gb)
      then show ?thesis using k ne e2 by (simp add: gb)
    next
      case 2
      have "ga = g" using a 2 by (simp add: ins_def[symmetric])
      moreover have "gb = ga" using b 2 \<open>ga = g\<close> by (simp add: outs_def[symmetric])
      moreover obtain x y where "ins = [x]" "outs = [y]"
        using 2 by (auto simp: length_Suc_conv)
      ultimately show ?thesis
        using es i1 i2 wf by (simp add: ins_def[symmetric] outs_def[symmetric])
    next
      case 3
      then obtain x y where xy: "outs = [x, y]"
        by (cases outs) (auto simp: length_Suc_conv)
      have ne: "x \<noteq> y" using es by (simp add: ins_def[symmetric] outs_def[symmetric] xy 3)
      have ga: "ga = g" using a 3 by (simp add: ins_def[symmetric])
      have f: "flip y g = Inr gb" using b by (simp add: ga outs_def[symmetric] xy)
      have "y \<in> set outs" by (simp add: xy)
      then have att: "attached g y" unfolding attached_def outs_def by blast
      note k = flip_keeps[OF f wf att] and fl = flip_lists(1-4)[OF f, of n]
      have nt: "target (edge_heap g y) \<noteq> Some n"
        using fl(4) by (auto simp: ins_def[symmetric] 3)
      have ib: "incoming (node_heap gb n) = (if source (edge_heap g y) = Some n then [y] else [])"
        using fl(2) nt by (simp add: ins_def[symmetric] 3)
      have s: "source (edge_heap g y) = Some n" and e1: "e1 = y"
        using i1 ib by (auto split: if_splits)
      have "outgoing (node_heap gb n) = [x]"
        using fl(1) nt s ne by (simp add: outs_def[symmetric] xy)
      then have "e2 = x" using i2 by simp
      then show ?thesis using k ne e1 by simp
    qed
  qed
  then have wfb: "well_formed gb" and ne: "e1 \<noteq> e2"
    and kb: "\<And>obj. on_edge g obj \<Longrightarrow> own_vector g obj
          \<Longrightarrow> on_edge gb obj \<and> own_vector gb obj \<and> global_pose gb obj = global_pose g obj"
    by simp_all
  note m = merge_keeps[OF wfb ne i1 i2 st rp refl rm g']
  show ?thesis
  proof (intro conjI allI impI)
    show "well_formed g'" by (rule m(1))
  next
    fix obj
    assume "on_edge g obj \<and> own_vector g obj"
    then have "on_edge g obj" "own_vector g obj" by simp_all
    from kb[OF this] have i: "on_edge gb obj" and o: "own_vector gb obj"
      and p: "global_pose gb obj = global_pose g obj" by simp_all
    from m(2)[OF i o] show "on_edge g' obj" by simp
    from m(2)[OF i o] show "own_vector g' obj" by simp
    from m(2)[OF i o] p show "global_pose g' obj = global_pose g obj" by simp
  qed
  qed
qed

lemma contract_loop_keeps:
  "contract_loop ns (g, r) = Inr (g', r') \<Longrightarrow> well_formed g \<Longrightarrow>
     well_formed g' \<and>
     (\<forall>obj. on_edge g obj \<and> own_vector g obj
         \<longrightarrow> on_edge g' obj \<and> own_vector g' obj \<and> global_pose g' obj = global_pose g obj)"
proof (induction ns arbitrary: g r)
  case Nil
  then show ?case by simp
next
  case (Cons n ns)
  from Cons.prems(1) obtain g1 r1 where
    c: "contract_node n (g, r) = Inr (g1, r1)" and l: "contract_loop ns (g1, r1) = Inr (g', r')"
    by (auto simp: ebind_Inr)
  note k1 = contract_node_keeps[OF c Cons.prems(2)]
  then have wf1: "well_formed g1" by simp
  note k2 = Cons.IH[OF l wf1]
  show ?case using k1 k2 by auto
qed

subsection \<open>Contraction and the global poses of scenery objects\<close>

lemmas contract_defs =
  contract_edges_def contract_node_def degree_def flip_def set_target_def set_source_def
  incoming_remove_def incoming_append_def outgoing_remove_def outgoing_append_def
  remove_edge_def list_remove_def upd_node_def upd_edge_def upd_obj_def upd_vec_def ebind_def Let_def
  edge_length_def Graph_def

lemmas pose_defs =
  global_pose_def edge_to_global_def seg_to_global_def seg_travel_def straight_def center_def
  obj_pose_def Pose_def polar_def v_add_def ortho_def v_scale_def ebind_def Let_def

lemma py_mod_quarter_back: "py_mod (- (pi / 2)) (2 * pi) = 3 * pi / 2"
proof -
  have "- (pi / 2) / (2 * pi) = - (1 / 4 :: real)" by simp
  moreover have "\<lfloor>- (1 / 4 :: real)\<rfloor> = - 1" by linarith
  ultimately have "\<lfloor>- (pi / 2) / (2 * pi)\<rfloor> = - 1" by simp
  then show ?thesis by (simp add: py_mod_def)
qed

lemma py_mod_half_turn: "py_mod pi (2 * pi) = pi"
  using py_mod_pi[of 1] by simp

lemma py_mod_quarter: "py_mod (pi / 2) (2 * pi) = pi / 2"
proof -
  have "pi / 2 / (2 * pi) = (1 / 4 :: real)" by simp
  moreover have "\<lfloor>1 / 4 :: real\<rfloor> = 0" by linarith
  ultimately have "\<lfloor>pi / 2 / (2 * pi)\<rfloor> = 0" by simp
  then show ?thesis by (simp add: py_mod_def)
qed

lemma py_mod_three_quarters: "py_mod (3 * pi / 2) (2 * pi) = 3 * pi / 2"
proof -
  have "3 * pi / 2 / (2 * pi) = (3 / 4 :: real)" by simp
  moreover have "\<lfloor>3 / 4 :: real\<rfloor> = 0" by linarith
  ultimately have "\<lfloor>3 * pi / 2 / (2 * pi)\<rfloor> = 0" by simp
  then show ?thesis by (simp add: py_mod_def)
qed

lemma on_edge_global_pose:
  assumes "on_edge g obj"
  shows "\<exists>p. global_pose g obj = Inr (Some p)"
proof (cases "relative_to (obj_heap g obj)")
  case None
  then show ?thesis by (simp add: global_pose_free)
next
  case (Some e)
  from global_pose_on_edge[OF this assms] show ?thesis by simp
qed


lemma joined_single: "joined [s]"
  by simp

lemma opposite_small: "opposite []" "opposite [p]"
  by (simp_all add: opposite_def)

lemma opposite_pair: "opposite [p, q] \<longleftrightarrow> q = reverse p"
  by (auto simp: opposite_def)

lemma meeting_graph_well_formed: "well_formed meeting_graph"
proof -
  have "objs_ok meeting_graph"
    by (auto simp: objs_ok_def meeting_graph_def Graph_def split: if_splits)
  moreover have "lengths_ok meeting_graph"
    by (auto simp: lengths_ok_def meeting_graph_def Graph_def split: if_splits)
  moreover have "segs_ok meeting_graph"
    by (auto simp: segs_ok_def attached_def meeting_graph_def Graph_def split: if_splits)
  moreover have "lists_ok meeting_graph"
    by (auto simp: lists_ok_def meeting_graph_def Graph_def split: if_splits)
  moreover have "smooth meeting_graph"
  proof -
    have "joined (segments (edge_heap meeting_graph e))" for e
      by (simp add: meeting_graph_def Graph_def)
    moreover have "opposite (into meeting_graph n)" for n
      by (simp add: meeting_graph_def Graph_def into_def edge_last_def edge_first_def opposite_small
          opposite_pair seg_travel_def straight_def reverse_def Pose_def polar_def v_add_def
          py_mod_half_turn py_mod_pi[of 0, simplified] py_mod_pi[of 2, simplified])
    ultimately show ?thesis by (simp add: smooth_def)
  qed
  ultimately show ?thesis by (simp add: well_formed_def)
qed

lemma meeting_graph_before:
  "global_pose meeting_graph 0 = Inr (Some (RawPose (Vector 17 (- 1)) pi))"
  "global_pose meeting_graph 1 = Inr (Some (RawPose (Vector 10 (- 1)) pi))"
  by (simp_all add: meeting_graph_def Graph_def pose_defs py_mod_half_turn)

lemma meeting_graph_contracts: "\<exists>g' removed. contract_edges meeting_graph = Inr (g', removed)"
  by (simp add: meeting_graph_def contract_defs reverse_def seg_flip_def seg_end_def pose_defs)


lemma curve_before:
  "global_pose curve_graph 0 = Inr (Some (RawPose (Vector (10 + 5 * pi) 0) 0))"
  by (simp add: curve_graph_def Graph_def pose_defs py_mod_def)

lemma curve_after:
  "ebind (contract_edges curve_graph) (\<lambda>(g', removed). global_pose g' 0)
     = Inr (Some (RawPose (Vector 20 (- 10)) (3 * pi / 2)))"
  apply (simp add: curve_graph_def contract_defs)
  apply (simp add: pose_defs py_mod_quarter_back py_mod_three_quarters)
  done

lemma curve_graph_well_formed: "well_formed curve_graph"
proof -
  have "objs_ok curve_graph"
    by (auto simp: objs_ok_def curve_graph_def Graph_def split: if_splits)
  moreover have "lengths_ok curve_graph"
    by (auto simp: lengths_ok_def curve_graph_def Graph_def split: if_splits)
  moreover have "segs_ok curve_graph"
    by (auto simp: segs_ok_def attached_def curve_graph_def Graph_def split: if_splits)
  moreover have "lists_ok curve_graph"
    by (auto simp: lists_ok_def curve_graph_def Graph_def split: if_splits)
  moreover have "smooth curve_graph"
  proof -
    have "joined (segments (edge_heap curve_graph e))" for e
      by (simp add: curve_graph_def Graph_def)
    moreover have "opposite (into curve_graph n)" for n
      by (simp add: curve_graph_def Graph_def into_def edge_last_def edge_first_def opposite_small
          opposite_pair seg_travel_def straight_def center_def reverse_def Pose_def polar_def v_add_def
          Let_def)
    ultimately show ?thesis by (simp add: smooth_def)
  qed
  ultimately show ?thesis by (simp add: well_formed_def)
qed

lemma shared_graph_well_formed: "well_formed shared_graph"
proof -
  have "objs_ok shared_graph"
    by (auto simp: objs_ok_def shared_graph_def meeting_graph_def Graph_def split: if_splits)
  moreover have "lengths_ok shared_graph"
    using meeting_graph_well_formed by (simp add: well_formed_def lengths_ok_def shared_graph_def)
  moreover have "segs_ok shared_graph"
    using meeting_graph_well_formed by (simp add: well_formed_def segs_ok_def attached_def shared_graph_def)
  moreover have "lists_ok shared_graph"
    using meeting_graph_well_formed by (simp add: well_formed_def lists_ok_def shared_graph_def)
  moreover have "smooth shared_graph"
  proof -
    have "into shared_graph n = into meeting_graph n" for n
      by (simp add: into_def edge_last_def[abs_def] edge_first_def[abs_def] shared_graph_def)
    then show ?thesis
      using meeting_graph_well_formed by (simp add: well_formed_def smooth_def shared_graph_def)
  qed
  ultimately show ?thesis by (simp add: well_formed_def)
qed

lemma shared_before:
  "global_pose shared_graph 0 = Inr (Some (RawPose (Vector 17 (- 1)) pi))"
  by (simp add: shared_graph_def meeting_graph_def Graph_def pose_defs py_mod_half_turn)

lemma shared_after:
  "ebind (contract_edges shared_graph) (\<lambda>(g', removed). global_pose g' 0)
     = Inr (Some (RawPose (Vector 23 1) pi))"
  apply (simp add: shared_graph_def meeting_graph_def contract_defs reverse_def seg_flip_def seg_end_def
      obj_pose_def Pose_def seg_travel_def straight_def polar_def v_add_def)
  apply (simp add: pose_defs py_mod_half_turn py_mod_pi[of 0, simplified] py_mod_pi[of 2, simplified])
  done

lemma corner_before:
  "global_pose corner_graph 0 = Inr (Some (RawPose (Vector 10 0) (pi / 2)))"
  by (simp add: corner_graph_def Graph_def pose_defs py_mod_quarter)

lemma corner_after:
  "ebind (contract_edges corner_graph) (\<lambda>(g', removed). global_pose g' 0)
     = Inr (Some (RawPose (Vector 10 0) 0))"
  apply (simp add: corner_graph_def contract_defs)
  apply (simp add: pose_defs py_mod_pi[of 0, simplified])
  done

lemma corner_graph_not_smooth: "\<not> smooth corner_graph"
proof -
  have "\<not> opposite (into corner_graph 1)"
    by (simp add: corner_graph_def Graph_def into_def edge_last_def edge_first_def
        opposite_pair seg_travel_def straight_def reverse_def Pose_def polar_def v_add_def
        py_mod_quarter py_mod_pi[of 0, simplified] py_mod_three_quarters py_mod_half_turn)
  then show ?thesis unfolding smooth_def by blast
qed


end
